theory Spec2Isabelle
  imports
    Main
    "HOL-Library.Word"
    "HOL-Library.Char_ord"
    "HOL-Library.List_Lexorder"
    "HOL-Library.Multiset"
begin

unbundle bit_operations_syntax

section \<open>Python values and job dictionaries\<close>

text \<open>
  A job is a Python \<^verbatim>\<open>Dict\<close> from field names to values. The scrapers
  (\<^verbatim>\<open>base_scraper.py\<close>, lines 101-119) fill every field with a \<^verbatim>\<open>str\<close>, and
  \<^verbatim>\<open>clean_and_validate_job\<close> adds \<^verbatim>\<open>None\<close> for a missing state, so a field
  value is text or \<^verbatim>\<open>None\<close>. Text is a list of code points below 256.
\<close>

datatype pyval = PNone | PStr string

type_synonym job = "string \<rightharpoonup> pyval"

datatype py_error = KeyError | TypeError | ValueError | JSONDecodeError | OSError

text \<open>Truthiness (\<^verbatim>\<open>if v:\<close>): \<^verbatim>\<open>None\<close> and the empty string are false.\<close>

definition truthy :: "pyval \<Rightarrow> bool" where
  "truthy v = (case v of PNone \<Rightarrow> False | PStr s \<Rightarrow> s \<noteq> [])"

text \<open>\<^verbatim>\<open>job.get(k)\<close> and \<^verbatim>\<open>job.get(k, d)\<close>.\<close>

definition dict_get :: "job \<Rightarrow> string \<Rightarrow> pyval" where
  "dict_get j k = (case j k of None \<Rightarrow> PNone | Some v \<Rightarrow> v)"

definition dict_get_default :: "job \<Rightarrow> string \<Rightarrow> pyval \<Rightarrow> pyval" where
  "dict_get_default j k d = (case j k of None \<Rightarrow> d | Some v \<Rightarrow> v)"

text \<open>How an f-string prints a value: \<^verbatim>\<open>f"{None}"\<close> is the text \<^verbatim>\<open>None\<close>.\<close>

definition format_val :: "pyval \<Rightarrow> string" where
  "format_val v = (case v of PNone \<Rightarrow> ''None'' | PStr s \<Rightarrow> s)"

section \<open>String operations of the Python library\<close>

text \<open>
  \<^verbatim>\<open>str.isspace\<close> on the code points below 256: U+0009..U+000D, U+001C..U+0020,
  U+0085 and U+00A0.
\<close>

definition isspace :: "char \<Rightarrow> bool" where
  "isspace c = (let n = (of_char c :: nat) in
     (9 \<le> n \<and> n \<le> 13) \<or> (28 \<le> n \<and> n \<le> 32) \<or> n = 133 \<or> n = 160)"

text \<open>
  \<^verbatim>\<open>str.lower\<close> on the code points below 256: A..Z and U+00C0..U+00DE (but the
  multiplication sign U+00D7) move up by 32. On these code points \<^verbatim>\<open>lower\<close> maps
  each character by itself. On other Unicode text it does not (a capital sigma is lowered
  according to its place in the word, and a text can change its length), so the general
  statements about the fingerprint below take \<^verbatim>\<open>lower\<close> of a whole text, as the
  code does, and use no other property of it.
\<close>

definition lower_char :: "char \<Rightarrow> char" where
  "lower_char c = (let n = (of_char c :: nat) in
     if (65 \<le> n \<and> n \<le> 90) \<or> (192 \<le> n \<and> n \<le> 222 \<and> n \<noteq> 215)
     then char_of (n + 32) else c)"

definition str_lower :: "string \<Rightarrow> string" where
  "str_lower s = map lower_char s"

text \<open>\<^verbatim>\<open>str.strip()\<close>: whitespace removed at both ends.\<close>

definition str_strip :: "string \<Rightarrow> string" where
  "str_strip s = rev (dropWhile isspace (rev (dropWhile isspace s)))"

text \<open>
  \<^verbatim>\<open>str.split()\<close> with no argument: the maximal runs of non-whitespace. The first
  argument is the word read so far.
\<close>

fun str_split_from :: "string \<Rightarrow> string \<Rightarrow> string list" where
  "str_split_from w [] = (if w = [] then [] else [w])"
| "str_split_from w (c # cs) =
     (if isspace c
      then (if w = [] then str_split_from [] cs else w # str_split_from [] cs)
      else str_split_from (w @ [c]) cs)"

definition str_split :: "string \<Rightarrow> string list" where
  "str_split s = str_split_from [] s"

text \<open>\<^verbatim>\<open>sep.join(parts)\<close>.\<close>

fun str_join :: "string \<Rightarrow> string list \<Rightarrow> string" where
  "str_join sep [] = []"
| "str_join sep [x] = x"
| "str_join sep (x # y # ys) = x @ sep @ str_join sep (y # ys)"

text \<open>\<^verbatim>\<open>text.replace(c, ' ')\<close> for a pattern of one character.\<close>

definition replace_char :: "char \<Rightarrow> char \<Rightarrow> string \<Rightarrow> string" where
  "replace_char c d s = map (\<lambda>x. if x = c then d else x) s"

text \<open>
  \<^verbatim>\<open>'  ' in text\<close> and \<^verbatim>\<open>text.replace('  ', ' ')\<close>: the occurrences of two
  spaces are replaced from the left, without overlap.
\<close>

fun has_double_space :: "string \<Rightarrow> bool" where
  "has_double_space (a # b # cs) =
     ((a = CHR '' '' \<and> b = CHR '' '') \<or> has_double_space (b # cs))"
| "has_double_space cs = False"

fun replace_double_space :: "string \<Rightarrow> string" where
  "replace_double_space (a # b # cs) =
     (if a = CHR '' '' \<and> b = CHR '' '' then CHR '' '' # replace_double_space cs
      else a # replace_double_space (b # cs))"
| "replace_double_space cs = cs"

text \<open>
  The loop \<^verbatim>\<open>while '  ' in text: text = text.replace('  ', ' ')\<close> of
  \<^verbatim>\<open>clean_text\<close>. Each round shortens the text, so the loop ends.
\<close>

function remove_multiple_spaces :: "string \<Rightarrow> string" where
  "remove_multiple_spaces t =
     (if has_double_space t then remove_multiple_spaces (replace_double_space t) else t)"
  by pat_completeness auto
termination
proof (relation "measure length")
  show "wf (measure length)" by simp
next
  fix t :: string
  have le: "length (replace_double_space s) \<le> length s" for s
    by (induction s rule: replace_double_space.induct) auto
  have "has_double_space s \<Longrightarrow> length (replace_double_space s) < length s" for s
  proof (induction s rule: has_double_space.induct)
    case (1 a b cs)
    show ?case
    proof (cases "a = CHR '' '' \<and> b = CHR '' ''")
      case True
      then show ?thesis using le [of cs] by simp
    next
      case False
      then show ?thesis using 1 by auto
    qed
  qed simp_all
  moreover assume "has_double_space t"
  ultimately show "(replace_double_space t, t) \<in> measure length" by simp
qed

declare remove_multiple_spaces.simps [simp del]

text \<open>\<^verbatim>\<open>JobProcessor.clean_text\<close> (job_processor.py, lines 125-140).\<close>

definition clean_text :: "string \<Rightarrow> string" where
  "clean_text text0 =
     (if text0 = [] then []
      else
        let t1 = str_join '' '' (str_split text0);
            t2 = replace_char (char_of (9 :: nat)) CHR '' ''
                   (replace_char (char_of (13 :: nat)) CHR '' ''
                     (replace_char (char_of (10 :: nat)) CHR '' '' t1));
            t3 = remove_multiple_spaces t2
        in str_strip t3)"

section \<open>MD5 (RFC 1321), as \<^verbatim>\<open>hashlib.md5(...).hexdigest()\<close> computes it\<close>

type_synonym md5_state = "32 word \<times> 32 word \<times> 32 word \<times> 32 word"

definition md5_s :: "nat list" where
  "md5_s = [7,12,17,22, 7,12,17,22, 7,12,17,22, 7,12,17,22,
            5,9,14,20, 5,9,14,20, 5,9,14,20, 5,9,14,20,
            4,11,16,23, 4,11,16,23, 4,11,16,23, 4,11,16,23,
            6,10,15,21, 6,10,15,21, 6,10,15,21, 6,10,15,21]"

definition md5_K :: "32 word list" where
  "md5_K =
     [0xd76aa478, 0xe8c7b756, 0x242070db, 0xc1bdceee, 0xf57c0faf, 0x4787c62a, 0xa8304613, 0xfd469501,
      0x698098d8, 0x8b44f7af, 0xffff5bb1, 0x895cd7be, 0x6b901122, 0xfd987193, 0xa679438e, 0x49b40821,
      0xf61e2562, 0xc040b340, 0x265e5a51, 0xe9b6c7aa, 0xd62f105d, 0x02441453, 0xd8a1e681, 0xe7d3fbc8,
      0x21e1cde6, 0xc33707d6, 0xf4d50d87, 0x455a14ed, 0xa9e3e905, 0xfcefa3f8, 0x676f02d9, 0x8d2a4c8a,
      0xfffa3942, 0x8771f681, 0x6d9d6122, 0xfde5380c, 0xa4beea44, 0x4bdecfa9, 0xf6bb4b60, 0xbebfbc70,
      0x289b7ec6, 0xeaa127fa, 0xd4ef3085, 0x04881d05, 0xd9d4d039, 0xe6db99e5, 0x1fa27cf8, 0xc4ac5665,
      0xf4292244, 0x432aff97, 0xab9423a7, 0xfc93a039, 0x655b59c3, 0x8f0ccc92, 0xffeff47d, 0x85845dd1,
      0x6fa87e4f, 0xfe2ce6e0, 0xa3014314, 0x4e0811a1, 0xf7537e82, 0xbd3af235, 0x2ad7d2bb, 0xeb86d391]"

text \<open>The 64 operations: four rounds of sixteen.\<close>

definition md5_round_steps :: "nat list" where
  "md5_round_steps = [0,1,2,3,4,5,6,7,8,9,10,11,12,13,14,15]"

definition md5_rounds :: "nat list" where
  "md5_rounds =
     md5_round_steps @ map (\<lambda>i. i + 16) md5_round_steps
       @ map (\<lambda>i. i + 32) md5_round_steps @ map (\<lambda>i. i + 48) md5_round_steps"

definition rotl32 :: "nat \<Rightarrow> 32 word \<Rightarrow> 32 word" where
  "rotl32 n w = (push_bit n w) OR (drop_bit (32 - n) w)"

fun md5_step :: "32 word list \<Rightarrow> nat \<Rightarrow> md5_state \<Rightarrow> md5_state" where
  "md5_step M i (a, b, c, d) =
     (let f = (if i < 16 then (b AND c) OR (NOT b AND d)
               else if i < 32 then (d AND b) OR (NOT d AND c)
               else if i < 48 then b XOR c XOR d
               else c XOR (b OR NOT d));
          g = (if i < 16 then i
               else if i < 32 then (5 * i + 1) mod 16
               else if i < 48 then (3 * i + 5) mod 16
               else (7 * i) mod 16);
          f' = f + a + md5_K ! i + M ! g
      in (d, b + rotl32 (md5_s ! i) f', b, c))"

definition md5_block :: "md5_state \<Rightarrow> 32 word list \<Rightarrow> md5_state" where
  "md5_block st M =
     (case st of (a0, b0, c0, d0) \<Rightarrow>
        (case fold (md5_step M) md5_rounds st of (a, b, c, d) \<Rightarrow>
           (a0 + a, b0 + b, c0 + c, d0 + d)))"

text \<open>Little-endian: the low bytes of a number, and the 32-bit words of a byte list.\<close>

fun le_bytes :: "nat \<Rightarrow> nat \<Rightarrow> nat list" where
  "le_bytes 0 v = []"
| "le_bytes (Suc k) v = (v mod 256) # le_bytes k (v div 256)"

fun le_words :: "nat list \<Rightarrow> 32 word list" where
  "le_words (a # b # c # d # bs) =
     (of_nat a + push_bit 8 (of_nat b) + push_bit 16 (of_nat c) + push_bit 24 (of_nat d))
       # le_words bs"
| "le_words bs = []"

text \<open>
  Padding: the byte 0x80, zero bytes up to 56 modulo 64, then the length of the message
  in bits as 8 little-endian bytes.
\<close>

definition md5_pad :: "nat list \<Rightarrow> nat list" where
  "md5_pad bs =
     (let n = length bs
      in bs @ [128] @ replicate ((119 - n mod 64) mod 64) 0 @ le_bytes 8 (8 * n))"

fun md5_blocks :: "md5_state \<Rightarrow> nat list \<Rightarrow> md5_state" where
  "md5_blocks st bs =
     (if length bs < 64 then st
      else md5_blocks (md5_block st (le_words (take 64 bs))) (drop 64 bs))"

declare md5_blocks.simps [simp del]

definition md5_init :: md5_state where
  "md5_init = (0x67452301, 0xefcdab89, 0x98badcfe, 0x10325476)"

definition hex_digit :: "nat \<Rightarrow> char" where
  "hex_digit n = ''0123456789abcdef'' ! n"

definition hex_byte :: "nat \<Rightarrow> string" where
  "hex_byte n = [hex_digit (n div 16), hex_digit (n mod 16)]"

definition word_bytes :: "32 word \<Rightarrow> nat list" where
  "word_bytes w =
     [unat (w AND 255), unat (drop_bit 8 w AND 255),
      unat (drop_bit 16 w AND 255), unat (drop_bit 24 w AND 255)]"

definition md5_hexdigest :: "nat list \<Rightarrow> string" where
  "md5_hexdigest bs =
     (case md5_blocks md5_init (md5_pad bs) of (a, b, c, d) \<Rightarrow>
        concat (map hex_byte (word_bytes a @ word_bytes b @ word_bytes c @ word_bytes d)))"

text \<open>\<^verbatim>\<open>s.encode('utf-8')\<close> on code points below 256.\<close>

definition utf8_encode :: "string \<Rightarrow> nat list" where
  "utf8_encode s =
     concat (map (\<lambda>c. let n = (of_char c :: nat) in
                        if n < 128 then [n] else [192 + n div 64, 128 + n mod 64]) s)"

section \<open>The fingerprint\<close>

text \<open>\<^verbatim>\<open>JobProcessor.generate_job_hash\<close> (job_processor.py, lines 142-147).\<close>

definition hash_content :: "job \<Rightarrow> string" where
  "hash_content j =
     str_strip (str_lower
       (format_val (dict_get_default j ''title'' (PStr []))
        @ format_val (dict_get_default j ''location'' (PStr []))
        @ format_val (dict_get_default j ''source'' (PStr []))))"

definition generate_job_hash :: "job \<Rightarrow> string" where
  "generate_job_hash j = md5_hexdigest (utf8_encode (hash_content j))"

section \<open>Validation and normalisation of a scraped record\<close>

text \<open>
  The \<^verbatim>\<open>datetime\<close> library is a parameter of the model: a point in time is a number
  of microseconds, \<^verbatim>\<open>isoformat\<close> prints it and \<^verbatim>\<open>fromisoformat\<close> parses a text,
  raising \<^verbatim>\<open>ValueError\<close> on a text it cannot read and giving a naive or a
  timezone-aware time otherwise. Every \<^verbatim>\<open>datetime.now()\<close> of one call reads the
  same time \<open>now\<close>.
\<close>

datatype parsed = ParseError | Naive int | Aware int

record clock =
  isoformat :: "int \<Rightarrow> string"
  fromisoformat :: "string \<Rightarrow> parsed"

definition timedelta_days :: "int \<Rightarrow> int" where
  "timedelta_days n = n * 86400000000"

definition required_fields :: "string list" where
  "required_fields = [''title'', ''source'']"

definition text_fields :: "string list" where
  "text_fields = [''title'', ''description'', ''location'', ''qualification'', ''last_date'']"

definition defaults :: "clock \<Rightarrow> int \<Rightarrow> (string \<times> pyval) list" where
  "defaults D now =
     [(''description'', PStr ''Job details not available''),
      (''location'', PStr ''India''),
      (''state'', PNone),
      (''category'', PStr ''government''),
      (''qualification'', PStr ''As per notification''),
      (''last_date'', PStr ''Check notification''),
      (''apply_link'', PStr []),
      (''scraped_at'', PStr (isoformat D now))]"

definition field_limits :: "(string \<times> nat) list" where
  "field_limits =
     [(''title'', 200), (''description'', 1000), (''location'', 100),
      (''qualification'', 200), (''last_date'', 100)]"

text \<open>\<^verbatim>\<open>if job.get(field): job[field] = self.clean_text(job[field])\<close>\<close>

definition clean_field :: "string \<Rightarrow> job \<Rightarrow> job" where
  "clean_field field j =
     (case dict_get j field of
        PNone \<Rightarrow> j
      | PStr s \<Rightarrow> if s \<noteq> [] then j(field \<mapsto> PStr (clean_text s)) else j)"

text \<open>\<^verbatim>\<open>if not job.get(field): job[field] = default_value\<close>\<close>

definition fill_default :: "string \<times> pyval \<Rightarrow> job \<Rightarrow> job" where
  "fill_default fd j =
     (if \<not> truthy (dict_get j (fst fd)) then j(fst fd \<mapsto> snd fd) else j)"

text \<open>\<^verbatim>\<open>if job['category'] not in ['government', 'private']: job['category'] = 'government'\<close>\<close>

definition validate_category :: "job \<Rightarrow> py_error + job" where
  "validate_category j =
     (case j ''category'' of
        None \<Rightarrow> Inl KeyError
      | Some v \<Rightarrow>
          if v \<noteq> PStr ''government'' \<and> v \<noteq> PStr ''private''
          then Inr (j(''category'' \<mapsto> PStr ''government''))
          else Inr j)"

text \<open>\<^verbatim>\<open>job[field] = job[field][:n]\<close>: a missing key or \<^verbatim>\<open>None\<close> raises.\<close>

definition limit_field :: "string \<times> nat \<Rightarrow> job \<Rightarrow> py_error + job" where
  "limit_field fn j =
     (case j (fst fn) of
        None \<Rightarrow> Inl KeyError
      | Some PNone \<Rightarrow> Inl TypeError
      | Some (PStr s) \<Rightarrow> Inr (j(fst fn \<mapsto> PStr (take (snd fn) s))))"

fun limit_fields :: "(string \<times> nat) list \<Rightarrow> job \<Rightarrow> py_error + job" where
  "limit_fields [] j = Inr j"
| "limit_fields (fn # fns) j =
     (case limit_field fn j of Inl e \<Rightarrow> Inl e | Inr j' \<Rightarrow> limit_fields fns j')"

text \<open>
  \<^verbatim>\<open>JobProcessor.clean_and_validate_job\<close> (job_processor.py, lines 75-123). The
  result \<open>Inr None\<close> is the \<^verbatim>\<open>return None\<close> of a rejected record, \<open>Inl e\<close> an
  exception that leaves the function.
\<close>

definition clean_and_validate_job :: "clock \<Rightarrow> int \<Rightarrow> job \<Rightarrow> py_error + job option" where
  "clean_and_validate_job D now job0 =
     (if job0 = Map.empty then Inr None
      else if \<not> list_all (\<lambda>field. truthy (dict_get job0 field)) required_fields then Inr None
      else
        let job1 = fold clean_field text_fields job0;
            job2 = fold fill_default (defaults D now) job1
        in case validate_category job2 of
             Inl e \<Rightarrow> Inl e
           | Inr job3 \<Rightarrow>
               (case limit_fields field_limits job3 of
                  Inl e \<Rightarrow> Inl e
                | Inr job4 \<Rightarrow> Inr (Some (job4(''processed_at'' \<mapsto> PStr (isoformat D now))))))"



section \<open>The store: two JSON files\<close>

text \<open>
  A file is missing, holds text that is not JSON, cannot be read, or holds a list of
  jobs. \<open>writable\<close> says whether \<^verbatim>\<open>open(file, 'w')\<close> succeeds; where it does not,
  the save operations log the error and leave the file as it was.
\<close>

datatype json_file = Missing | Corrupt | Unreadable | Content "job list"

record store =
  jobs_file :: json_file
  posted_jobs_file :: json_file
  writable :: bool

text \<open>\<^verbatim>\<open>open(path, 'r')\<close> followed by \<^verbatim>\<open>json.load(f)\<close>.\<close>

definition read_json :: "json_file \<Rightarrow> py_error + job list" where
  "read_json f =
     (case f of
        Missing \<Rightarrow> Inl OSError
      | Corrupt \<Rightarrow> Inl JSONDecodeError
      | Unreadable \<Rightarrow> Inl OSError
      | Content js \<Rightarrow> Inr js)"

text \<open>
  The body of both load operations (storage.py, lines 24-40 and 51-67):
  \<^verbatim>\<open>os.path.exists\<close>, the read, and the two \<^verbatim>\<open>except\<close> clauses.
\<close>

definition path_exists :: "json_file \<Rightarrow> bool" where
  "path_exists f = (case f of Missing \<Rightarrow> False | _ \<Rightarrow> True)"

definition load_file :: "json_file \<Rightarrow> job list" where
  "load_file f =
     (if path_exists f
      then (case read_json f of
              Inr jobs \<Rightarrow> jobs
            | Inl JSONDecodeError \<Rightarrow> []
            | Inl _ \<Rightarrow> [])
      else [])"

definition load_existing_jobs :: "store \<Rightarrow> job list" where
  "load_existing_jobs st = load_file (jobs_file st)"

definition load_posted_jobs :: "store \<Rightarrow> job list" where
  "load_posted_jobs st = load_file (posted_jobs_file st)"

definition save_jobs :: "store \<Rightarrow> job list \<Rightarrow> store" where
  "save_jobs st jobs = (if writable st then st\<lparr>jobs_file := Content jobs\<rparr> else st)"

definition save_posted_jobs :: "store \<Rightarrow> job list \<Rightarrow> store" where
  "save_posted_jobs st jobs = (if writable st then st\<lparr>posted_jobs_file := Content jobs\<rparr> else st)"

section \<open>The job processor\<close>

text \<open>
  The loop of \<^verbatim>\<open>JobProcessor.process_jobs\<close> (job_processor.py, lines 41-64) over the
  scraped jobs; the result is \<^verbatim>\<open>new_jobs\<close>. An exception of the body is caught and
  the job skipped.
\<close>

fun process_loop :: "clock \<Rightarrow> int \<Rightarrow> string set \<Rightarrow> string set \<Rightarrow> job list \<Rightarrow> job list" where
  "process_loop D now existing_hashes posted_hashes [] = []"
| "process_loop D now existing_hashes posted_hashes (job0 # rest) =
     (case clean_and_validate_job D now job0 of
        Inl e \<Rightarrow> process_loop D now existing_hashes posted_hashes rest
      | Inr None \<Rightarrow> process_loop D now existing_hashes posted_hashes rest
      | Inr (Some processed_job) \<Rightarrow>
          (let job_hash = generate_job_hash processed_job in
           if job_hash \<in> existing_hashes \<or> job_hash \<in> posted_hashes
           then process_loop D now existing_hashes posted_hashes rest
           else processed_job(''job_hash'' \<mapsto> PStr job_hash)
                  # process_loop D now (insert job_hash existing_hashes) posted_hashes rest))"

text \<open>
  \<^verbatim>\<open>JobProcessor.process_jobs\<close> (job_processor.py, lines 22-73): the new jobs and the
  store it leaves.
\<close>

definition process_jobs :: "clock \<Rightarrow> int \<Rightarrow> job list \<Rightarrow> store \<Rightarrow> job list \<times> store" where
  "process_jobs D now scraped_jobs st =
     (if scraped_jobs = [] then ([], st)
      else
        let existing_jobs = load_existing_jobs st;
            posted_jobs = load_posted_jobs st;
            existing_hashes = set (map generate_job_hash existing_jobs);
            posted_hashes = set (map generate_job_hash posted_jobs);
            new_jobs = process_loop D now existing_hashes posted_hashes scraped_jobs
        in (new_jobs,
            if new_jobs \<noteq> [] then save_jobs st (existing_jobs @ new_jobs) else st))"



text \<open>
  \<^verbatim>\<open>unposted_jobs.sort(key=lambda x: x.get('scraped_at', ''), reverse=True)\<close>: a
  stable sort, descending, of texts by code points. Comparing \<^verbatim>\<open>None\<close> raises
  \<^verbatim>\<open>TypeError\<close>, and every element of a list of two or more is compared.
\<close>

definition scraped_at_key :: "job \<Rightarrow> pyval" where
  "scraped_at_key j = dict_get_default j ''scraped_at'' (PStr [])"

definition key_text :: "job \<Rightarrow> string" where
  "key_text j = (case scraped_at_key j of PNone \<Rightarrow> [] | PStr s \<Rightarrow> s)"

definition sort_newest_first :: "job list \<Rightarrow> py_error + job list" where
  "sort_newest_first js =
     (if 2 \<le> length js \<and> list_ex (\<lambda>j. scraped_at_key j = PNone) js then Inl TypeError
      else Inr (rev (sort_key key_text (rev js))))"

text \<open>\<^verbatim>\<open>if limit: unposted_jobs = unposted_jobs[:limit]\<close>\<close>

definition apply_limit :: "int option \<Rightarrow> job list \<Rightarrow> job list" where
  "apply_limit limit js =
     (case limit of
        None \<Rightarrow> js
      | Some n \<Rightarrow>
          if n = 0 then js
          else if 0 < n then take (nat n) js
          else take (length js - nat (- n)) js)"

text \<open>\<^verbatim>\<open>JobProcessor.get_jobs_for_posting\<close> (job_processor.py, lines 177-199).\<close>

definition get_jobs_for_posting :: "int option \<Rightarrow> store \<Rightarrow> py_error + job list" where
  "get_jobs_for_posting limit st =
     (let jobs = load_existing_jobs st;
          posted_jobs = load_posted_jobs st;
          posted_hashes = set (filter truthy (map (\<lambda>j. dict_get j ''job_hash'') posted_jobs));
          unposted_jobs = filter (\<lambda>j. dict_get j ''job_hash'' \<notin> posted_hashes) jobs
      in case sort_newest_first unposted_jobs of
           Inl e \<Rightarrow> Inl e
         | Inr sorted_jobs \<Rightarrow> Inr (apply_limit limit sorted_jobs))"

text \<open>
  \<^verbatim>\<open>datetime.fromisoformat(v) > cutoff_date\<close>: \<^verbatim>\<open>None\<close> and an aware time raise
  \<^verbatim>\<open>TypeError\<close>, an unreadable text raises \<^verbatim>\<open>ValueError\<close>.
\<close>

definition newer_than :: "clock \<Rightarrow> int \<Rightarrow> pyval \<Rightarrow> py_error + bool" where
  "newer_than D cutoff v =
     (case v of
        PNone \<Rightarrow> Inl TypeError
      | PStr s \<Rightarrow>
          (case fromisoformat D s of
             ParseError \<Rightarrow> Inl ValueError
           | Aware t \<Rightarrow> Inl TypeError
           | Naive t \<Rightarrow> Inr (cutoff < t)))"

text \<open>The list comprehension of \<^verbatim>\<open>mark_jobs_as_posted\<close> (lines 217-220).\<close>

fun keep_recent_posted :: "clock \<Rightarrow> int \<Rightarrow> int \<Rightarrow> job list \<Rightarrow> py_error + job list" where
  "keep_recent_posted D now cutoff [] = Inr []"
| "keep_recent_posted D now cutoff (j # js) =
     (case newer_than D cutoff (dict_get_default j ''posted_at'' (PStr (isoformat D now))) of
        Inl e \<Rightarrow> Inl e
      | Inr keep \<Rightarrow>
          (case keep_recent_posted D now cutoff js of
             Inl e \<Rightarrow> Inl e
           | Inr kept \<Rightarrow> Inr (if keep then j # kept else kept)))"

text \<open>\<^verbatim>\<open>JobProcessor.mark_jobs_as_posted\<close> (job_processor.py, lines 201-223).\<close>

definition mark_jobs_as_posted :: "clock \<Rightarrow> int \<Rightarrow> job list \<Rightarrow> store \<Rightarrow> py_error + store" where
  "mark_jobs_as_posted D now jobs st =
     (if jobs = [] then Inr st
      else
        let posted_jobs = load_posted_jobs st;
            stamped = map (\<lambda>j. j(''posted_at'' \<mapsto> PStr (isoformat D now))) jobs;
            cutoff_date = now - timedelta_days 30
        in case keep_recent_posted D now cutoff_date (posted_jobs @ stamped) of
             Inl e \<Rightarrow> Inl e
           | Inr kept \<Rightarrow> Inr (save_posted_jobs st kept))"

text \<open>The loop of \<^verbatim>\<open>cleanup_old_data\<close> (job_processor.py, lines 233-242).\<close>

fun recent_jobs :: "clock \<Rightarrow> int \<Rightarrow> job list \<Rightarrow> py_error + job list" where
  "recent_jobs D cutoff [] = Inr []"
| "recent_jobs D cutoff (j # js) =
     (case dict_get j ''scraped_at'' of
        PNone \<Rightarrow> recent_jobs D cutoff js
      | PStr s \<Rightarrow>
          if s = [] then recent_jobs D cutoff js
          else
            (case fromisoformat D s of
               ParseError \<Rightarrow>
                 (case recent_jobs D cutoff js of Inl e \<Rightarrow> Inl e | Inr r \<Rightarrow> Inr (j # r))
             | Aware t \<Rightarrow> Inl TypeError
             | Naive t \<Rightarrow>
                 if cutoff < t
                 then (case recent_jobs D cutoff js of Inl e \<Rightarrow> Inl e | Inr r \<Rightarrow> Inr (j # r))
                 else recent_jobs D cutoff js))"

text \<open>\<^verbatim>\<open>JobProcessor.cleanup_old_data\<close> (job_processor.py, lines 225-246).\<close>

definition cleanup_old_data :: "clock \<Rightarrow> int \<Rightarrow> int \<Rightarrow> store \<Rightarrow> py_error + store" where
  "cleanup_old_data D now days st =
     (let cutoff_date = now - timedelta_days days;
          jobs = load_existing_jobs st
      in case recent_jobs D cutoff_date jobs of
           Inl e \<Rightarrow> Inl e
         | Inr recent \<Rightarrow>
             Inr (if length recent < length jobs then save_jobs st recent else st))"

section \<open>The scheduler\<close>

text \<open>
  The state of \<^verbatim>\<open>JobScheduler\<close>: the store, the batches captured by the scheduled
  \<^verbatim>\<open>delayed_posting\<close> tasks, and the batches that a channel published. The two
  channels are outside the repository's core: what Telegram and Blogger report for a
  batch are the inputs \<open>success_telegram\<close> and \<open>success_blogger\<close>.
\<close>

datatype channel = Telegram | Blogger

record scheduler =
  storage :: store
  delayed_posting :: "job list list"
  published :: "(channel \<times> job list) list"

text \<open>\<^verbatim>\<open>JobScheduler.post_jobs\<close> (scheduler.py, lines 157-194).\<close>

definition post_jobs :: "bool \<Rightarrow> bool \<Rightarrow> clock \<Rightarrow> int \<Rightarrow> job list \<Rightarrow> scheduler \<Rightarrow> scheduler" where
  "post_jobs success_telegram success_blogger D now jobs s =
     (if jobs = [] then s
      else
        let s1 = s\<lparr>published := published s
                     @ (if success_telegram then [(Telegram, jobs)] else [])
                     @ (if success_blogger then [(Blogger, jobs)] else [])\<rparr>
        in if success_telegram \<or> success_blogger
           then (case mark_jobs_as_posted D now jobs (storage s1) of
                   Inl e \<Rightarrow> s1
                 | Inr st \<Rightarrow> s1\<lparr>storage := st\<rparr>)
           else s1)"

text \<open>
  \<^verbatim>\<open>JobScheduler.run_scraping_job\<close> (scheduler.py, lines 88-122);
  \<open>all_scraped_jobs\<close> is what the scrapers returned.
\<close>

definition run_scraping_job :: "clock \<Rightarrow> int \<Rightarrow> job list \<Rightarrow> scheduler \<Rightarrow> scheduler" where
  "run_scraping_job D now all_scraped_jobs s =
     (case process_jobs D now all_scraped_jobs (storage s) of
        (new_jobs, st) \<Rightarrow>
          s\<lparr>storage := st,
            delayed_posting :=
              (if new_jobs \<noteq> [] then delayed_posting s @ [new_jobs] else delayed_posting s)\<rparr>)"

text \<open>
  \<^verbatim>\<open>JobScheduler.run_posting_job\<close> (scheduler.py, lines 124-139);
  \<open>max_jobs_per_post\<close> is \<^verbatim>\<open>config.MAX_JOBS_PER_POST\<close>.
\<close>

definition run_posting_job :: "bool \<Rightarrow> bool \<Rightarrow> clock \<Rightarrow> int \<Rightarrow> int \<Rightarrow> scheduler \<Rightarrow> scheduler" where
  "run_posting_job success_telegram success_blogger D now max_jobs_per_post s =
     (case get_jobs_for_posting (Some (max_jobs_per_post * 3)) (storage s) of
        Inl e \<Rightarrow> s
      | Inr jobs_to_post \<Rightarrow>
          if jobs_to_post = [] then s
          else post_jobs success_telegram success_blogger D now jobs_to_post s)"

text \<open>
  \<^verbatim>\<open>JobScheduler.run_posting_job_for_jobs\<close> (scheduler.py, lines 141-155), the task
  scheduled for a batch of new jobs; \<^verbatim>\<open>schedule.clear('delayed_posting')\<close> drops
  every task of that tag.
\<close>

definition run_posting_job_for_jobs ::
    "bool \<Rightarrow> bool \<Rightarrow> clock \<Rightarrow> int \<Rightarrow> job list \<Rightarrow> scheduler \<Rightarrow> scheduler" where
  "run_posting_job_for_jobs success_telegram success_blogger D now jobs s =
     (if jobs = [] then s
      else (post_jobs success_telegram success_blogger D now jobs s)\<lparr>delayed_posting := []\<rparr>)"

text \<open>\<^verbatim>\<open>JobScheduler.run_cleanup_job\<close> (scheduler.py, lines 196-207).\<close>

definition run_cleanup_job :: "clock \<Rightarrow> int \<Rightarrow> scheduler \<Rightarrow> scheduler" where
  "run_cleanup_job D now s =
     (case cleanup_old_data D now 7 (storage s) of
        Inl e \<Rightarrow> s
      | Inr st \<Rightarrow> s\<lparr>storage := st\<rparr>)"

section \<open>The deduplication rule in the words of the specification\<close>

text \<open>
  The records of a raw batch that pass validation, in order; the rule that the record at
  position \<open>i\<close> of them is new (its fingerprint is in neither set and no earlier record
  of the batch has it); and the accepted records, each with its fingerprint stored
  under \<^verbatim>\<open>job_hash\<close>.
\<close>

definition validated :: "clock \<Rightarrow> int \<Rightarrow> job list \<Rightarrow> job list" where
  "validated D now batch =
     List.map_filter
       (\<lambda>r. case clean_and_validate_job D now r of Inr (Some p) \<Rightarrow> Some p | _ \<Rightarrow> None) batch"

definition first_new :: "string set \<Rightarrow> string set \<Rightarrow> job list \<Rightarrow> nat \<Rightarrow> bool" where
  "first_new known delivered ps i =
     (generate_job_hash (ps ! i) \<notin> known \<and>
      generate_job_hash (ps ! i) \<notin> delivered \<and>
      generate_job_hash (ps ! i) \<notin> generate_job_hash ` set (take i ps))"

definition accepted :: "string set \<Rightarrow> string set \<Rightarrow> job list \<Rightarrow> job list" where
  "accepted known delivered ps =
     map (\<lambda>i. (ps ! i)(''job_hash'' \<mapsto> PStr (generate_job_hash (ps ! i))))
       (filter (first_new known delivered ps) [0..<length ps])"

text \<open>
  The undelivered backlog: the known jobs whose \<^verbatim>\<open>job_hash\<close> is not the
  \<^verbatim>\<open>job_hash\<close> of a delivered job.
\<close>

definition delivered_hashes :: "store \<Rightarrow> pyval set" where
  "delivered_hashes st =
     {h. truthy h \<and> (\<exists>d \<in> set (load_posted_jobs st). dict_get d ''job_hash'' = h)}"

definition undelivered :: "store \<Rightarrow> job list" where
  "undelivered st =
     filter (\<lambda>j. dict_get j ''job_hash'' \<notin> delivered_hashes st) (load_existing_jobs st)"

text \<open>
  A delivered record whose \<^verbatim>\<open>posted_at\<close> is absent or is a text that
  \<^verbatim>\<open>fromisoformat\<close> reads as a naive time, as \<^verbatim>\<open>mark_jobs_as_posted\<close> writes it.
\<close>

definition posted_at_readable :: "clock \<Rightarrow> job \<Rightarrow> bool" where
  "posted_at_readable D j =
     (case j ''posted_at'' of
        None \<Rightarrow> True
      | Some PNone \<Rightarrow> False
      | Some (PStr s) \<Rightarrow> (case fromisoformat D s of Naive t \<Rightarrow> True | _ \<Rightarrow> False))"

text \<open>
  The text of a field as \<^verbatim>\<open>generate_job_hash\<close> reads it, and the normalised triple
  in the words of the specification: title, location and source, each
  whitespace-collapsed and case-folded.
\<close>

definition field_text :: "job \<Rightarrow> string \<Rightarrow> string" where
  "field_text j k = format_val (dict_get_default j k (PStr []))"

definition spec_normalized :: "job \<Rightarrow> string \<times> string \<times> string" where
  "spec_normalized j =
     (str_lower (clean_text (field_text j ''title'')),
      str_lower (clean_text (field_text j ''location'')),
      str_lower (clean_text (field_text j ''source'')))"

text \<open>
  What \<^verbatim>\<open>clean_and_validate_job\<close> makes of the title and the location of a record
  before it cuts them to length: the cleaned title, and the cleaned location or the
  default \<^verbatim>\<open>India\<close>.
\<close>

definition cleaned_title :: "job \<Rightarrow> string" where
  "cleaned_title j = (case dict_get j ''title'' of PNone \<Rightarrow> [] | PStr t \<Rightarrow> clean_text t)"

definition cleaned_location :: "job \<Rightarrow> string" where
  "cleaned_location j =
     (case dict_get j ''location'' of
        PNone \<Rightarrow> ''India''
      | PStr l \<Rightarrow> if l \<noteq> [] \<and> clean_text l \<noteq> [] then clean_text l else ''India'')"

text \<open>
  The text that \<^verbatim>\<open>generate_job_hash\<close> lower-cases and strips: title, location and
  source, one after the other. For a raw record that passes validation, the same text
  of the processed record: the cleaned title cut to 200 characters, the cleaned location
  cut to 100, and the source as it is.
\<close>

definition triple_text :: "job \<Rightarrow> string" where
  "triple_text j = field_text j ''title'' @ field_text j ''location'' @ field_text j ''source''"

definition validated_triple_text :: "job \<Rightarrow> string" where
  "validated_triple_text r =
     take 200 (cleaned_title r) @ take 100 (cleaned_location r) @ field_text r ''source''"


definition dated :: "job \<Rightarrow> bool" where
  "dated j = truthy (dict_get j ''scraped_at'')"

section \<open>Concrete inputs\<close>

text \<open>
  A clock that prints and reads five points in time, a store with neither file, and the
  two records of the specification's scenario.
\<close>

definition example_times :: "(string \<times> int) list" where
  "example_times =
     [(''2024-03-01T00:00:00'', 0),
      (''2024-03-11T00:00:00'', 864000000000),
      (''2024-03-12T00:00:00'', 950400000000),
      (''2024-04-15T00:00:00'', 3888000000000),
      (''2024-04-16T00:00:00'', 3974400000000)]"

definition example_clock :: clock where
  "example_clock =
     \<lparr>isoformat = (\<lambda>t. case List.find (\<lambda>e. snd e = t) example_times of
                          None \<Rightarrow> ''1970-01-01T00:00:00''
                        | Some e \<Rightarrow> fst e),
      fromisoformat = (\<lambda>s. case map_of example_times s of
                          None \<Rightarrow> ParseError
                        | Some t \<Rightarrow> Naive t)\<rparr>"

definition empty_store :: store where
  "empty_store = \<lparr>jobs_file = Missing, posted_jobs_file = Missing, writable = True\<rparr>"


definition clerk_upper :: job where
  "clerk_upper =
     [''title'' \<mapsto> PStr ''Clerk'', ''location'' \<mapsto> PStr ''Delhi'', ''source'' \<mapsto> PStr ''X'']"

definition clerk_lower :: job where
  "clerk_lower =
     [''title'' \<mapsto> PStr ''clerk'', ''location'' \<mapsto> PStr ''delhi'', ''source'' \<mapsto> PStr ''X'']"

text \<open>A store with three known jobs, the second of them delivered.\<close>

definition job_a :: job where
  "job_a = [''title'' \<mapsto> PStr ''Clerk'', ''source'' \<mapsto> PStr ''X'',
            ''scraped_at'' \<mapsto> PStr ''2024-03-01T00:00:00'', ''job_hash'' \<mapsto> PStr ''a1'']"

definition job_b :: job where
  "job_b = [''title'' \<mapsto> PStr ''Driver'', ''source'' \<mapsto> PStr ''X'',
            ''scraped_at'' \<mapsto> PStr ''2024-03-11T00:00:00'', ''job_hash'' \<mapsto> PStr ''b2'']"

definition job_c :: job where
  "job_c = [''title'' \<mapsto> PStr ''Teacher'', ''source'' \<mapsto> PStr ''X'',
            ''scraped_at'' \<mapsto> PStr ''2024-03-12T00:00:00'', ''job_hash'' \<mapsto> PStr ''c3'']"

definition backlog_store :: store where
  "backlog_store =
     \<lparr>jobs_file = Content [job_a, job_b, job_c],
      posted_jobs_file = Content [job_b(''posted_at'' \<mapsto> PStr ''2024-03-11T00:00:00'')],
      writable = True\<rparr>"

definition example_scheduler :: scheduler where
  "example_scheduler = \<lparr>storage = backlog_store, delayed_posting = [], published = []\<rparr>"

text \<open>
  Two records that differ in the whitespace of the source only, and two that differ in
  the whitespace and the case of the title.
\<close>

definition portal_wide :: job where
  "portal_wide =
     [''title'' \<mapsto> PStr ''Clerk'', ''location'' \<mapsto> PStr ''Delhi'',
      ''source'' \<mapsto> PStr ''Job  Portal'']"

definition portal_narrow :: job where
  "portal_narrow =
     [''title'' \<mapsto> PStr ''Clerk'', ''location'' \<mapsto> PStr ''Delhi'',
      ''source'' \<mapsto> PStr ''Job Portal'']"

definition typist_spaced :: job where
  "typist_spaced = [''title'' \<mapsto> PStr ''  Clerk   Typist '', ''source'' \<mapsto> PStr ''X'']"

definition typist_plain :: job where
  "typist_plain =
     [''title'' \<mapsto> PStr ''clerk typist'', ''location'' \<mapsto> PStr ''india'',
      ''source'' \<mapsto> PStr ''x'']"






text \<open>
  A run of the scheduler: one scraping cycle that finds one new record, the periodic
  posting job, then the delayed posting task of that cycle. Telegram reports success
  both times, Blogger failure.
\<close>

definition idle_scheduler :: scheduler where
  "idle_scheduler = \<lparr>storage = empty_store, delayed_posting = [], published = []\<rparr>"

definition after_scrape :: scheduler where
  "after_scrape = run_scraping_job example_clock 0 [clerk_upper] idle_scheduler"

definition after_backlog_pass :: scheduler where
  "after_backlog_pass = run_posting_job True False example_clock 0 5 after_scrape"

definition after_delayed_task :: scheduler where
  "after_delayed_task =
     run_posting_job_for_jobs True False example_clock 864000000000
       (hd (delayed_posting after_backlog_pass)) after_backlog_pass"

section \<open>Field by field: what cleaning and validation do to a record\<close>

lemma clean_field_apply:
  "clean_field f j k =
     (if k = f then
        (case j f of
           Some (PStr s) \<Rightarrow> if s \<noteq> [] then Some (PStr (clean_text s)) else j f
         | _ \<Rightarrow> j f)
      else j k)"
  by (simp add: clean_field_def dict_get_def split: option.splits pyval.splits)

lemma fill_default_apply:
  "fill_default (f, d) j k = (if k = f \<and> \<not> truthy (dict_get j f) then Some d else j k)"
  by (simp add: fill_default_def)

lemma limit_field_Inr:
  "limit_field (f, n) j = Inr j' \<longleftrightarrow> (\<exists>s. j f = Some (PStr s) \<and> j' = j(f \<mapsto> PStr (take n s)))"
  by (auto simp: limit_field_def split: option.splits pyval.splits)

lemma limit_fields_other:
  "limit_fields fns j = Inr j' \<Longrightarrow> k \<notin> fst ` set fns \<Longrightarrow> j' k = j k"
proof (induction fns arbitrary: j)
  case Nil
  then show ?case by simp
next
  case (Cons fn fns)
  obtain f n where fn: "fn = (f, n)" by (cases fn)
  from Cons.prems(1) obtain j1 where
    j1: "limit_field (f, n) j = Inr j1" and rest: "limit_fields fns j1 = Inr j'"
    by (auto simp: fn split: sum.splits)
  from j1 Cons.prems(2) have "j1 k = j k"
    by (auto simp: limit_field_Inr fn)
  moreover from Cons.IH [OF rest] Cons.prems(2) have "j' k = j1 k" by simp
  ultimately show ?case by simp
qed

lemma limit_fields_succeeds:
  "list_all (\<lambda>fn. \<exists>s. j (fst fn) = Some (PStr s)) fns \<Longrightarrow> \<exists>j'. limit_fields fns j = Inr j'"
proof (induction fns arbitrary: j)
  case Nil
  then show ?case by simp
next
  case (Cons fn fns)
  obtain f n where fn: "fn = (f, n)" by (cases fn)
  from Cons.prems obtain s where s: "j f = Some (PStr s)"
    by (auto simp: fn)
  let ?j1 = "j(f \<mapsto> PStr (take n s))"
  have step: "limit_field (f, n) j = Inr ?j1"
    using s by (simp add: limit_field_Inr)
  have "list_all (\<lambda>fn. \<exists>s. ?j1 (fst fn) = Some (PStr s)) fns"
    using Cons.prems by (auto simp: list_all_iff fn)
  from Cons.IH [OF this] obtain j' where "limit_fields fns ?j1 = Inr j'" ..
  with step show ?case by (simp add: fn)
qed

lemma validate_category_cases:
  "validate_category j = Inr j' \<Longrightarrow>
     (\<exists>v. j ''category'' = Some v \<and>
        j' ''category'' = Some (if v = PStr ''private'' then v else PStr ''government'') \<and>
        (\<forall>k. k \<noteq> ''category'' \<longrightarrow> j' k = j k))"
  unfolding validate_category_def
  by (cases "j ''category''") (auto split: if_splits)

lemma validate_category_succeeds:
  "j ''category'' = Some v \<Longrightarrow> \<exists>j'. validate_category j = Inr j'"
  by (simp add: validate_category_def)

lemma filled_category:
  "(fold fill_default (defaults D now) (fold clean_field text_fields j)) ''category'' =
     (if truthy (dict_get j ''category'') then j ''category'' else Some (PStr ''government''))"
  by (simp add: defaults_def text_fields_def fill_default_apply clean_field_apply dict_get_def)

lemma fold_clean_field_apply:
  "distinct fs \<Longrightarrow> fold clean_field fs j k = (if k \<in> set fs then clean_field k j k else j k)"
proof (induction fs arbitrary: j)
  case Nil
  then show ?case by simp
next
  case (Cons f fs)
  then show ?case by (auto simp: clean_field_apply)
qed

lemma fold_fill_default_apply:
  "distinct (map fst ds) \<Longrightarrow>
   fold fill_default ds j k =
     (if k \<in> fst ` set ds \<and> \<not> truthy (dict_get j k) then map_of ds k else j k)"
proof (induction ds arbitrary: j k)
  case Nil
  then show ?case by simp
next
  case (Cons fd ds)
  obtain f d where fd: "fd = (f, d)" by (cases fd)
  from Cons.prems have nf: "f \<notin> fst ` set ds" and dist: "distinct (map fst ds)"
    by (auto simp: fd)
  have step: "fold fill_default (fd # ds) j k = fold fill_default ds (fill_default (f, d) j) k"
    by (simp add: fd)
  show ?case
  proof (cases "k = f")
    case True
    with nf show ?thesis
      unfolding step Cons.IH [OF dist] by (simp add: fd fill_default_apply)
  next
    case False
    then show ?thesis
      unfolding step Cons.IH [OF dist] by (simp add: fd fill_default_apply dict_get_def)
  qed
qed

lemma job2_apply:
  "(fold fill_default (defaults D now) (fold clean_field text_fields j)) k =
     (if k \<in> fst ` set (defaults D now) \<and>
         \<not> truthy (dict_get (\<lambda>k. if k \<in> set text_fields then clean_field k j k else j k) k)
      then map_of (defaults D now) k
      else if k \<in> set text_fields then clean_field k j k else j k)"
proof -
  have d1: "distinct text_fields" by (simp add: text_fields_def)
  have d2: "distinct (map fst (defaults D now))" by (simp add: defaults_def)
  show ?thesis
    unfolding fold_fill_default_apply [OF d2] dict_get_def fold_clean_field_apply [OF d1]
    by simp
qed


lemma job2_title:
  "(fold fill_default (defaults D now) (fold clean_field text_fields j)) ''title'' =
     clean_field ''title'' j ''title''"
  unfolding job2_apply by (simp add: defaults_def text_fields_def)


lemma clean_field_text:
  "truthy (dict_get j k) \<Longrightarrow> \<exists>s. clean_field k j k = Some (PStr s)"
  by (auto simp: clean_field_apply dict_get_def truthy_def split: option.splits pyval.splits)

lemma filled_title:
  assumes "truthy (dict_get j ''title'')"
  shows "\<exists>s. (fold fill_default (defaults D now) (fold clean_field text_fields j)) ''title'' = Some (PStr s)"
  unfolding job2_title using assms by (rule clean_field_text)

lemma job2_defaulted:
  assumes "(k, d) \<in> set (defaults D now)"
  shows "(fold fill_default (defaults D now) (fold clean_field text_fields j)) k =
     (if truthy (dict_get (\<lambda>k. if k \<in> set text_fields then clean_field k j k else j k) k)
      then (if k \<in> set text_fields then clean_field k j k else j k) else Some d)"
proof -
  have "distinct (map fst (defaults D now))" by (simp add: defaults_def)
  with assms have "map_of (defaults D now) k = Some d" by simp
  moreover from assms have "k \<in> fst ` set (defaults D now)" by force
  ultimately show ?thesis unfolding job2_apply by simp
qed

lemma truthy_text: "truthy v \<Longrightarrow> \<exists>s. s \<noteq> [] \<and> v = PStr s"
  by (cases v) (auto simp: truthy_def)

lemma filled_defaulted:
  assumes "(k, PStr d) \<in> set (defaults D now)" and "d \<noteq> []"
  shows "\<exists>s. s \<noteq> [] \<and> (fold fill_default (defaults D now) (fold clean_field text_fields j)) k = Some (PStr s)"
proof (cases "truthy (dict_get (\<lambda>k. if k \<in> set text_fields then clean_field k j k else j k) k)")
  case True
  from truthy_text [OF this] obtain s where "s \<noteq> []"
    and "dict_get (\<lambda>k. if k \<in> set text_fields then clean_field k j k else j k) k = PStr s"
    by blast
  then have "(if k \<in> set text_fields then clean_field k j k else j k) = Some (PStr s)"
    by (auto simp: dict_get_def split: option.splits)
  with True \<open>s \<noteq> []\<close> show ?thesis
    unfolding job2_defaulted [OF assms(1)] by simp
next
  case False
  with assms(2) show ?thesis
    unfolding job2_defaulted [OF assms(1)] by simp
qed

lemma cav_steps:
  assumes "clean_and_validate_job D now job0 = Inr (Some j)"
  obtains job3 job4 where
    "validate_category (fold fill_default (defaults D now) (fold clean_field text_fields job0))
       = Inr job3"
    "limit_fields field_limits job3 = Inr job4"
    "j = job4(''processed_at'' \<mapsto> PStr (isoformat D now))"
    "job0 \<noteq> Map.empty" "truthy (dict_get job0 ''title'')" "truthy (dict_get job0 ''source'')"
  using assms
  by (auto simp: clean_and_validate_job_def required_fields_def Let_def
           split: if_splits sum.splits)

lemma cav_category:
  assumes "clean_and_validate_job D now job0 = Inr (Some j)"
  shows "j ''category'' =
           Some (PStr (if job0 ''category'' = Some (PStr ''private'') then ''private''
                       else ''government''))"
proof -
  let ?job2 = "fold fill_default (defaults D now) (fold clean_field text_fields job0)"
  from assms obtain job3 job4 where
    v: "validate_category ?job2 = Inr job3" and
    l: "limit_fields field_limits job3 = Inr job4" and
    j: "j = job4(''processed_at'' \<mapsto> PStr (isoformat D now))"
    by (rule cav_steps)
  from limit_fields_other [OF l, of "''category''"] have "job4 ''category'' = job3 ''category''"
    by (simp add: field_limits_def)
  moreover have "job3 ''category'' =
           Some (PStr (if job0 ''category'' = Some (PStr ''private'') then ''private''
                       else ''government''))"
  proof -
    from validate_category_cases [OF v] obtain v0 where
      v0: "?job2 ''category'' = Some v0" and
      c3: "job3 ''category'' = Some (if v0 = PStr ''private'' then v0 else PStr ''government'')"
      by blast
    show ?thesis
    proof (cases "truthy (dict_get job0 ''category'')")
      case True
      with v0 have "job0 ''category'' = Some v0"
        by (simp add: filled_category)
      with c3 show ?thesis by auto
    next
      case False
      with v0 have "v0 = PStr ''government''"
        by (simp add: filled_category)
      moreover from False have "job0 ''category'' \<noteq> Some (PStr ''private'')"
        by (auto simp: truthy_def dict_get_def)
      ultimately show ?thesis using c3 by simp
    qed
  qed
  ultimately show ?thesis using j by simp
qed

lemma filled_limited:
  assumes "k \<in> {''description'', ''location'', ''qualification'', ''last_date''}"
  shows "\<exists>s. s \<noteq> [] \<and>
           (fold fill_default (defaults D now) (fold clean_field text_fields j)) k = Some (PStr s)"
proof -
  from assms consider
    "k = ''description''" | "k = ''location''" | "k = ''qualification''" | "k = ''last_date''"
    by auto
  then show ?thesis
  proof cases
    case 1
    show ?thesis unfolding 1
      by (rule filled_defaulted [where d = "''Job details not available''"])
         (simp_all add: defaults_def)
  next
    case 2
    show ?thesis unfolding 2
      by (rule filled_defaulted [where d = "''India''"]) (simp_all add: defaults_def)
  next
    case 3
    show ?thesis unfolding 3
      by (rule filled_defaulted [where d = "''As per notification''"]) (simp_all add: defaults_def)
  next
    case 4
    show ?thesis unfolding 4
      by (rule filled_defaulted [where d = "''Check notification''"]) (simp_all add: defaults_def)
  qed
qed

lemma cav_accepts:
  assumes "job0 \<noteq> Map.empty" "truthy (dict_get job0 ''title'')" "truthy (dict_get job0 ''source'')"
  shows "\<exists>p. clean_and_validate_job D now job0 = Inr (Some p)"
proof -
  let ?job2 = "fold fill_default (defaults D now) (fold clean_field text_fields job0)"
  have "\<exists>v. ?job2 ''category'' = Some v"
    by (cases "job0 ''category''") (auto simp: filled_category dict_get_def truthy_def)
  then obtain job3 where v: "validate_category ?job2 = Inr job3"
    using validate_category_succeeds by blast
  from validate_category_cases [OF v] have same: "\<And>k. k \<noteq> ''category'' \<Longrightarrow> job3 k = ?job2 k"
    by blast
  have "\<exists>s. job3 k = Some (PStr s)" if "k \<in> fst ` set field_limits" for k
  proof (cases "k = ''title''")
    case True
    with filled_title [OF assms(2), of D now] show ?thesis by (simp add: same)
  next
    case False
    with that have k: "k \<in> {''description'', ''location'', ''qualification'', ''last_date''}"
      by (auto simp: field_limits_def)
    then have "k \<noteq> ''category''" by auto
    with filled_limited [OF k, of D now job0] show ?thesis by (auto simp: same)
  qed
  then have "list_all (\<lambda>fn. \<exists>s. job3 (fst fn) = Some (PStr s)) field_limits"
    by (auto simp: list_all_iff)
  from limit_fields_succeeds [OF this] obtain job4 where "limit_fields field_limits job3 = Inr job4" ..
  with v assms show ?thesis
    by (simp add: clean_and_validate_job_def required_fields_def Let_def)
qed





lemma generate_job_hash_cong:
  "a ''title'' = b ''title'' \<Longrightarrow> a ''location'' = b ''location'' \<Longrightarrow> a ''source'' = b ''source'' \<Longrightarrow>
   generate_job_hash a = generate_job_hash b"
  by (simp add: generate_job_hash_def hash_content_def dict_get_default_def)


lemma validate_category_other:
  "validate_category j = Inr j' \<Longrightarrow> k \<noteq> ''category'' \<Longrightarrow> j' k = j k"
  using validate_category_cases [of j j'] by blast

lemma limit_fields_apply:
  "limit_fields fns j = Inr j' \<Longrightarrow> distinct (map fst fns) \<Longrightarrow> (k, n) \<in> set fns \<Longrightarrow>
   \<exists>s. j k = Some (PStr s) \<and> j' k = Some (PStr (take n s))"
proof (induction fns arbitrary: j)
  case Nil
  then show ?case by simp
next
  case (Cons fn fns)
  obtain f m where fn: "fn = (f, m)" by (cases fn)
  from Cons.prems(1) obtain j1 where
    j1: "limit_field (f, m) j = Inr j1" and rest: "limit_fields fns j1 = Inr j'"
    by (auto simp: fn split: sum.splits)
  from j1 obtain s where s: "j f = Some (PStr s)" and j1_eq: "j1 = j(f \<mapsto> PStr (take m s))"
    by (auto simp: limit_field_Inr)
  from Cons.prems(2) have nf: "f \<notin> fst ` set fns" and dist: "distinct (map fst fns)"
    by (auto simp: fn)
  show ?case
  proof (cases "(k, n) = (f, m)")
    case True
    with limit_fields_other [OF rest nf] s j1_eq show ?thesis by simp
  next
    case False
    with Cons.prems(3) have mem: "(k, n) \<in> set fns" by (auto simp: fn)
    with nf have "k \<noteq> f" by force
    with Cons.IH [OF rest dist mem] j1_eq show ?thesis by simp
  qed
qed

lemma cav_title:
  assumes "clean_and_validate_job D now job0 = Inr (Some p)"
  shows "\<exists>t. clean_field ''title'' job0 ''title'' = Some (PStr t) \<and>
             p ''title'' = Some (PStr (take 200 t))"
proof -
  let ?job2 = "fold fill_default (defaults D now) (fold clean_field text_fields job0)"
  from assms obtain job3 job4 where
    v: "validate_category ?job2 = Inr job3" and
    l: "limit_fields field_limits job3 = Inr job4" and
    p: "p = job4(''processed_at'' \<mapsto> PStr (isoformat D now))"
    by (rule cav_steps)
  from validate_category_other [OF v] have j3: "job3 ''title'' = ?job2 ''title''" by simp
  from limit_fields_apply [OF l, of "''title''" 200] obtain s where
    s3: "job3 ''title'' = Some (PStr s)" and s4: "job4 ''title'' = Some (PStr (take 200 s))"
    by (auto simp: field_limits_def)
  from s3 j3 have "clean_field ''title'' job0 ''title'' = Some (PStr s)"
    by (simp add: job2_title)
  moreover from s4 p have "p ''title'' = Some (PStr (take 200 s))"
    by simp
  ultimately show ?thesis by blast
qed

lemma cav_location:
  assumes "clean_and_validate_job D now job0 = Inr (Some p)"
  shows "\<exists>l. (if truthy (dict_get (clean_field ''location'' job0) ''location'')
              then clean_field ''location'' job0 ''location'' else Some (PStr ''India''))
               = Some (PStr l) \<and>
             p ''location'' = Some (PStr (take 100 l))"
proof -
  let ?job2 = "fold fill_default (defaults D now) (fold clean_field text_fields job0)"
  from assms obtain job3 job4 where
    v: "validate_category ?job2 = Inr job3" and
    l: "limit_fields field_limits job3 = Inr job4" and
    p: "p = job4(''processed_at'' \<mapsto> PStr (isoformat D now))"
    by (rule cav_steps)
  from validate_category_other [OF v] have j3: "job3 ''location'' = ?job2 ''location''" by simp
  have j2: "?job2 ''location'' =
      (if truthy (dict_get (clean_field ''location'' job0) ''location'')
       then clean_field ''location'' job0 ''location'' else Some (PStr ''India''))"
    by (subst job2_defaulted [where d = "PStr ''India''"])
       (simp_all add: defaults_def text_fields_def dict_get_def)
  from limit_fields_apply [OF l, of "''location''" 100] obtain s where
    s3: "job3 ''location'' = Some (PStr s)" and s4: "job4 ''location'' = Some (PStr (take 100 s))"
    by (auto simp: field_limits_def)
  from s3 j3 j2 have
    "(if truthy (dict_get (clean_field ''location'' job0) ''location'')
      then clean_field ''location'' job0 ''location'' else Some (PStr ''India'')) = Some (PStr s)"
    by metis
  moreover from s4 p have "p ''location'' = Some (PStr (take 100 s))"
    by simp
  ultimately show ?thesis by blast
qed

lemma cav_source:
  assumes "clean_and_validate_job D now job0 = Inr (Some p)"
  shows "p ''source'' = job0 ''source''"
proof -
  let ?job2 = "fold fill_default (defaults D now) (fold clean_field text_fields job0)"
  from assms obtain job3 job4 where
    v: "validate_category ?job2 = Inr job3" and
    l: "limit_fields field_limits job3 = Inr job4" and
    p: "p = job4(''processed_at'' \<mapsto> PStr (isoformat D now))"
    by (rule cav_steps)
  from validate_category_other [OF v] have j3: "job3 ''source'' = ?job2 ''source''" by simp
  have j2: "?job2 ''source'' = job0 ''source''"
    unfolding job2_apply by (simp add: defaults_def text_fields_def)
  from limit_fields_other [OF l, of "''source''"] have "job4 ''source'' = job3 ''source''"
    by (simp add: field_limits_def)
  with j3 j2 p show ?thesis by simp
qed

lemma clerk_upper_hash_content:
  assumes "clean_and_validate_job D now clerk_upper = Inr (Some p)"
  shows "hash_content p = ''clerkdelhix''"
proof -
  have ct: "clean_text ''Clerk'' = ''Clerk''" "clean_text ''Delhi'' = ''Delhi''"
    by code_simp+
  from cav_title [OF assms] have t: "p ''title'' = Some (PStr ''Clerk'')"
    by (simp add: clean_field_apply clerk_upper_def ct)
  from cav_location [OF assms] have l: "p ''location'' = Some (PStr ''Delhi'')"
    by (simp add: clean_field_apply clerk_upper_def ct dict_get_def truthy_def)
  from cav_source [OF assms] have s: "p ''source'' = Some (PStr ''X'')"
    by (simp add: clerk_upper_def)
  have "str_strip (str_lower ''ClerkDelhiX'') = ''clerkdelhix''"
    by code_simp
  with t l s show ?thesis
    by (simp add: hash_content_def dict_get_default_def format_val_def)
qed

lemma cav_cleaned_title:
  assumes "clean_and_validate_job D now r = Inr (Some p)"
  shows "p ''title'' = Some (PStr (take 200 (cleaned_title r)))"
proof -
  from assms have "truthy (dict_get r ''title'')"
    by (rule cav_steps)
  then obtain t0 where t0: "r ''title'' = Some (PStr t0)" "t0 \<noteq> []"
    by (auto simp: truthy_def dict_get_def split: option.splits pyval.splits)
  then have "clean_field ''title'' r ''title'' = Some (PStr (clean_text t0))"
    by (simp add: clean_field_apply)
  moreover from t0 have "cleaned_title r = clean_text t0"
    by (simp add: cleaned_title_def dict_get_def)
  ultimately show ?thesis
    using cav_title [OF assms] by auto
qed

lemma cleaned_location_eq:
  "(if truthy (dict_get (clean_field ''location'' r) ''location'')
    then clean_field ''location'' r ''location'' else Some (PStr ''India''))
   = Some (PStr (cleaned_location r))"
proof (cases "r ''location''")
  case None
  then show ?thesis
    by (simp add: clean_field_apply dict_get_def truthy_def cleaned_location_def)
next
  case (Some v)
  show ?thesis
  proof (cases v)
    case PNone
    with Some show ?thesis
      by (simp add: clean_field_apply dict_get_def truthy_def cleaned_location_def)
  next
    case (PStr l)
    with Some show ?thesis
      by (simp add: clean_field_apply dict_get_def truthy_def cleaned_location_def)
  qed
qed

lemma cav_cleaned_location:
  assumes "clean_and_validate_job D now r = Inr (Some p)"
  shows "p ''location'' = Some (PStr (take 100 (cleaned_location r)))"
  using cav_location [OF assms] by (auto simp: cleaned_location_eq)

lemma hash_content_triple_text:
  "hash_content j = str_strip (str_lower (triple_text j))"
  by (simp add: hash_content_def field_text_def triple_text_def)

lemma validated_triple:
  assumes "clean_and_validate_job D now r = Inr (Some p)"
  shows "triple_text p = validated_triple_text r"
  by (simp add: triple_text_def validated_triple_text_def field_text_def dict_get_default_def
        format_val_def cav_cleaned_title [OF assms] cav_cleaned_location [OF assms]
        cav_source [OF assms])

section \<open>Evaluating MD5\<close>

lemma replicate_numeral:
  "replicate (numeral k) x = x # replicate (pred_numeral k) x"
  by (simp add: numeral_eq_Suc)

lemma le_bytes_numeral:
  "le_bytes (numeral k) v = (v mod 256) # le_bytes (pred_numeral k) (v div 256)"
  by (simp add: numeral_eq_Suc [of k])

lemmas md5_eval =
  md5_hexdigest_def utf8_encode_def md5_pad_def Let_def replicate_numeral le_bytes_numeral
  md5_blocks.simps md5_block_def md5_init_def md5_K_def md5_s_def md5_rounds_def md5_round_steps_def rotl32_def
  hex_byte_def hex_digit_def word_bytes_def

section \<open>C7: a store that cannot be read is an empty store\<close>

text \<open>
  C7. A read of the known-set or of the delivered-set whose file is missing, is not
  JSON or cannot be read returns the empty list; a file that holds a list returns it.
  The load operations have no other outcome: every exception of the read is caught
  inside them.
\<close>

theorem load_failure_gives_empty_list:
  "(jobs_file st \<in> {Missing, Corrupt, Unreadable} \<longrightarrow> load_existing_jobs st = []) \<and>
   (posted_jobs_file st \<in> {Missing, Corrupt, Unreadable} \<longrightarrow> load_posted_jobs st = []) \<and>
   load_existing_jobs st = (case read_json (jobs_file st) of Inl e \<Rightarrow> [] | Inr jobs \<Rightarrow> jobs) \<and>
   load_posted_jobs st = (case read_json (posted_jobs_file st) of Inl e \<Rightarrow> [] | Inr jobs \<Rightarrow> jobs)"
proof -
  have "load_file f = (case read_json f of Inl e \<Rightarrow> [] | Inr jobs \<Rightarrow> jobs)" for f
    by (cases f) (simp_all add: load_file_def path_exists_def read_json_def)
  moreover have "load_file f = []" if "f \<in> {Missing, Corrupt, Unreadable}" for f
    using that by (auto simp: load_file_def path_exists_def read_json_def)
  ultimately show ?thesis
    by (simp add: load_existing_jobs_def load_posted_jobs_def)
qed

theorem load_failure_gives_empty_list_witness:
  "load_existing_jobs \<lparr>jobs_file = Corrupt, posted_jobs_file = Missing, writable = True\<rparr> = [] \<and>
   load_posted_jobs \<lparr>jobs_file = Corrupt, posted_jobs_file = Missing, writable = True\<rparr> = []"
  using load_failure_gives_empty_list
          [of "\<lparr>jobs_file = Corrupt, posted_jobs_file = Missing, writable = True\<rparr>"]
  by simp

section \<open>C8: the default category\<close>

text \<open>
  C8. A raw record that passes validation and whose category is absent, or is not one
  of \<^verbatim>\<open>government\<close> and \<^verbatim>\<open>private\<close>, comes out with the category
  \<^verbatim>\<open>government\<close>.
\<close>

theorem default_category_is_government:
  assumes "clean_and_validate_job D now job0 = Inr (Some j)"
    and "job0 ''category'' \<noteq> Some (PStr ''government'')"
    and "job0 ''category'' \<noteq> Some (PStr ''private'')"
  shows "j ''category'' = Some (PStr ''government'')"
  using cav_category [OF assms(1)] assms(3) by simp

theorem default_category_is_government_witness:
  "clerk_upper ''category'' = None \<and>
   (\<exists>j. clean_and_validate_job example_clock 0 clerk_upper = Inr (Some j) \<and>
        j ''category'' = Some (PStr ''government''))"
proof -
  have c: "clerk_upper ''category'' = None"
    by (simp add: clerk_upper_def)
  have "clerk_upper \<noteq> Map.empty" "truthy (dict_get clerk_upper ''title'')"
    "truthy (dict_get clerk_upper ''source'')"
    by (simp_all add: clerk_upper_def dict_get_def truthy_def)
  from cav_accepts [OF this] obtain j where
    j: "clean_and_validate_job example_clock 0 clerk_upper = Inr (Some j)"
    by blast
  from default_category_is_government [OF j] c have "j ''category'' = Some (PStr ''government'')"
    by simp
  with c j show ?thesis by blast
qed

section \<open>C6: what processing a batch does to the store\<close>

lemma process_loop_single:
  assumes "clean_and_validate_job D now r = Inr (Some p)"
    and "generate_job_hash p \<notin> K" and "generate_job_hash p \<notin> P"
  shows "process_loop D now K P [r] = [p(''job_hash'' \<mapsto> PStr (generate_job_hash p))]"
  using assms by (simp add: Let_def)

lemma clerk_upper_accepted:
  "\<exists>p. clean_and_validate_job D now clerk_upper = Inr (Some p)"
  by (rule cav_accepts) (simp_all add: clerk_upper_def dict_get_def truthy_def)

lemma empty_store_loads:
  "load_existing_jobs empty_store = []" "load_posted_jobs empty_store = []"
  by (simp_all add: load_existing_jobs_def load_posted_jobs_def load_file_def path_exists_def
        empty_store_def)

lemma process_jobs_jobs_file:
  "jobs_file (snd (process_jobs D now batch st)) =
     (if fst (process_jobs D now batch st) \<noteq> [] \<and> writable st
      then Content (load_existing_jobs st @ fst (process_jobs D now batch st))
      else jobs_file st)"
  by (simp add: process_jobs_def save_jobs_def Let_def)

lemma process_jobs_other_files:
  "posted_jobs_file (snd (process_jobs D now batch st)) = posted_jobs_file st"
  "writable (snd (process_jobs D now batch st)) = writable st"
  by (simp_all add: process_jobs_def save_jobs_def Let_def)

lemma process_clerk_upper:
  "\<exists>p. fst (process_jobs D now [clerk_upper] empty_store) = [p]"
proof -
  from clerk_upper_accepted obtain p where
    "clean_and_validate_job D now clerk_upper = Inr (Some p)" by blast
  from process_loop_single [OF this, of "{}" "{}"] show ?thesis
    by (simp add: process_jobs_def empty_store_loads Let_def del: process_loop.simps)
qed

text \<open>
  C6, amended. \<^verbatim>\<open>process_jobs\<close> never changes the delivered-set file. It leaves the
  known-set file as it is when it accepts no record (or the file cannot be written);
  when it accepts records, it saves the known-set itself: the jobs it loaded followed by
  the accepted ones.
\<close>

theorem process_jobs_store_effect:
  "posted_jobs_file (snd (process_jobs D now batch st)) = posted_jobs_file st \<and>
   writable (snd (process_jobs D now batch st)) = writable st \<and>
   jobs_file (snd (process_jobs D now batch st)) =
     (if fst (process_jobs D now batch st) \<noteq> [] \<and> writable st
      then Content (load_existing_jobs st @ fst (process_jobs D now batch st))
      else jobs_file st)"
  using process_jobs_jobs_file [of D now batch st] process_jobs_other_files [of D now batch st]
  by simp

text \<open>
  C6 as stated fails: processing one valid new record rewrites the known-set file.
\<close>

theorem process_jobs_writes_store_counterexample:
  "snd (process_jobs example_clock 0 [clerk_upper] empty_store) \<noteq> empty_store"
proof -
  from process_clerk_upper obtain p where
    p: "fst (process_jobs example_clock 0 [clerk_upper] empty_store) = [p]" by blast
  have "writable empty_store"
    by (simp add: empty_store_def)
  with process_jobs_jobs_file [of example_clock 0 "[clerk_upper]" empty_store] p
  have "jobs_file (snd (process_jobs example_clock 0 [clerk_upper] empty_store)) = Content [p]"
    by (simp add: empty_store_loads)
  moreover have "jobs_file empty_store = Missing"
    by (simp add: empty_store_def)
  ultimately show ?thesis
    by auto
qed

theorem process_jobs_store_effect_witness:
  "posted_jobs_file (snd (process_jobs example_clock 0 [clerk_upper] empty_store)) = Missing \<and>
   jobs_file (snd (process_jobs example_clock 0 [clerk_upper] empty_store)) =
     Content (fst (process_jobs example_clock 0 [clerk_upper] empty_store)) \<and>
   jobs_file (snd (process_jobs example_clock 0 [] empty_store)) = Missing"
proof -
  from process_clerk_upper obtain p where
    p: "fst (process_jobs example_clock 0 [clerk_upper] empty_store) = [p]" by blast
  have e: "fst (process_jobs example_clock 0 [] empty_store) = []"
    by (simp add: process_jobs_def)
  have w: "writable empty_store" "posted_jobs_file empty_store = Missing"
    "jobs_file empty_store = Missing"
    by (simp_all add: empty_store_def)
  from process_jobs_store_effect [of example_clock 0 "[clerk_upper]" empty_store]
       process_jobs_store_effect [of example_clock 0 "[]" empty_store]
  show ?thesis
    by (simp add: p e w empty_store_loads)
qed

section \<open>C4: which records of a batch are accepted\<close>

lemma validated_Cons:
  "validated D now (r # rs) =
     (case clean_and_validate_job D now r of
        Inr (Some p) \<Rightarrow> p # validated D now rs
      | _ \<Rightarrow> validated D now rs)"
  by (simp add: validated_def List.map_filter_simps split: sum.splits option.splits)

lemma first_new_Suc:
  "first_new K P (p # ps) (Suc i) = first_new (insert (generate_job_hash p) K) P ps i"
  by (auto simp: first_new_def)

lemma first_new_0:
  "first_new K P (p # ps) 0 = (generate_job_hash p \<notin> K \<and> generate_job_hash p \<notin> P)"
  by (simp add: first_new_def)

lemma accepted_Cons:
  "accepted K P (p # ps) =
     (if generate_job_hash p \<notin> K \<and> generate_job_hash p \<notin> P
      then [p(''job_hash'' \<mapsto> PStr (generate_job_hash p))] else [])
     @ accepted (insert (generate_job_hash p) K) P ps"
proof -
  have "[0..<length (p # ps)] = 0 # map Suc [0..<length ps]"
    by (simp add: upt_conv_Cons map_Suc_upt del: upt_Suc)
  then show ?thesis
    by (simp add: accepted_def filter_map o_def first_new_Suc first_new_0 del: upt_Suc)
qed

lemma accepted_known:
  "h \<in> K \<union> P \<Longrightarrow> accepted (insert h K) P ps = accepted K P ps"
proof -
  assume "h \<in> K \<union> P"
  then have "first_new (insert h K) P ps = first_new K P ps"
    by (auto simp: first_new_def fun_eq_iff)
  then show ?thesis by (simp add: accepted_def)
qed

lemma process_loop_accepted:
  "process_loop D now K P batch = accepted K P (validated D now batch)"
proof (induction batch arbitrary: K)
  case Nil
  show ?case by (simp add: validated_def accepted_def List.map_filter_simps)
next
  case (Cons r rs)
  show ?case
  proof (cases "clean_and_validate_job D now r")
    case (Inl e)
    then show ?thesis by (simp add: validated_Cons Cons.IH)
  next
    case (Inr res)
    show ?thesis
    proof (cases res)
      case None
      with Inr show ?thesis by (simp add: validated_Cons Cons.IH)
    next
      case (Some p)
      show ?thesis
      proof (cases "generate_job_hash p \<in> K \<union> P")
        case True
        with Inr Some show ?thesis
          by (auto simp: validated_Cons Cons.IH accepted_Cons accepted_known Let_def)
      next
        case False
        with Inr Some show ?thesis
          by (simp add: validated_Cons Cons.IH accepted_Cons Let_def)
      qed
    qed
  qed
qed

lemma clerk_lower_accepted:
  "\<exists>p. clean_and_validate_job D now clerk_lower = Inr (Some p)"
  by (rule cav_accepts) (simp_all add: clerk_lower_def dict_get_def truthy_def)

lemma clerk_lower_hash_content:
  assumes "clean_and_validate_job D now clerk_lower = Inr (Some p)"
  shows "hash_content p = ''clerkdelhix''"
proof -
  have ct: "clean_text ''clerk'' = ''clerk''" "clean_text ''delhi'' = ''delhi''"
    by code_simp+
  from cav_title [OF assms] have t: "p ''title'' = Some (PStr ''clerk'')"
    by (simp add: clean_field_apply clerk_lower_def ct)
  from cav_location [OF assms] have l: "p ''location'' = Some (PStr ''delhi'')"
    by (simp add: clean_field_apply clerk_lower_def ct dict_get_def truthy_def)
  from cav_source [OF assms] have s: "p ''source'' = Some (PStr ''X'')"
    by (simp add: clerk_lower_def)
  have "str_strip (str_lower ''clerkdelhiX'') = ''clerkdelhix''"
    by code_simp
  with t l s show ?thesis
    by (simp add: hash_content_def dict_get_default_def format_val_def)
qed

lemma clerk_scenario:
  "length (process_loop D now {} {} [clerk_upper, clerk_lower]) = 1"
proof -
  from clerk_upper_accepted obtain p1 where
    p1: "clean_and_validate_job D now clerk_upper = Inr (Some p1)" by blast
  from clerk_lower_accepted obtain p2 where
    p2: "clean_and_validate_job D now clerk_lower = Inr (Some p2)" by blast
  have "generate_job_hash p2 = generate_job_hash p1"
    by (simp add: generate_job_hash_def clerk_upper_hash_content [OF p1]
          clerk_lower_hash_content [OF p2])
  with p1 p2 show ?thesis
    by (simp add: Let_def)
qed

text \<open>
  C4. For every raw batch and every store, the output of \<^verbatim>\<open>process_jobs\<close> is the
  list of the validated records that are new: the record at a position is accepted if
  and only if its fingerprint is neither among the fingerprints of the known-set nor
  among those of the delivered-set, and no earlier validated record of the batch has
  the same fingerprint. In particular the batch of \<^verbatim>\<open>Clerk/Delhi/X\<close> and
  \<^verbatim>\<open>clerk/delhi/X\<close>, against a store with no history, yields one accepted record.
\<close>

theorem process_jobs_accepts_first_new:
  "fst (process_jobs D now batch st) =
     accepted (generate_job_hash ` set (load_existing_jobs st))
              (generate_job_hash ` set (load_posted_jobs st))
              (validated D now batch) \<and>
   length (fst (process_jobs D now [clerk_upper, clerk_lower] empty_store)) = 1"
proof -
  have "fst (process_jobs D now batch st) =
     accepted (generate_job_hash ` set (load_existing_jobs st))
              (generate_job_hash ` set (load_posted_jobs st))
              (validated D now batch)"
  proof (cases "batch = []")
    case True
    then show ?thesis
      by (simp add: process_jobs_def validated_def accepted_def List.map_filter_simps)
  next
    case False
    then show ?thesis
      by (simp add: process_jobs_def Let_def process_loop_accepted del: process_loop.simps)
  qed
  moreover have "length (fst (process_jobs D now [clerk_upper, clerk_lower] empty_store)) = 1"
    using clerk_scenario [of D now]
    by (simp add: process_jobs_def Let_def empty_store_loads del: process_loop.simps)
  ultimately show ?thesis by simp
qed

theorem process_jobs_accepts_first_new_witness:
  "fst (process_jobs example_clock 0 [clerk_upper, clerk_lower] empty_store) =
     accepted {} {} (validated example_clock 0 [clerk_upper, clerk_lower]) \<and>
   length (fst (process_jobs example_clock 0 [clerk_upper, clerk_lower] empty_store)) = 1"
proof -
  note inst = process_jobs_accepts_first_new
                [of example_clock 0 "[clerk_upper, clerk_lower]" empty_store]
  from inst have
    "fst (process_jobs example_clock 0 [clerk_upper, clerk_lower] empty_store) =
       accepted {} {} (validated example_clock 0 [clerk_upper, clerk_lower])"
    by (simp add: empty_store_loads)
  moreover from inst have
    "length (fst (process_jobs example_clock 0 [clerk_upper, clerk_lower] empty_store)) = 1"
    by blast
  ultimately show ?thesis by blast
qed

section \<open>C9: running the deduplication twice\<close>








lemma load_after_save_jobs:
  "writable st \<Longrightarrow> load_existing_jobs (save_jobs st js) = js"
  "load_posted_jobs (save_jobs st js) = load_posted_jobs st"
  by (simp_all add: save_jobs_def load_existing_jobs_def load_posted_jobs_def load_file_def
        path_exists_def read_json_def)

lemma process_jobs_not_writable:
  "\<not> writable st \<Longrightarrow> snd (process_jobs D now batch st) = st"
  by (simp add: process_jobs_def save_jobs_def Let_def)










section \<open>C10: the backlog, newest first\<close>

lemma delivered_hashes_code:
  "delivered_hashes st =
     set (filter truthy (map (\<lambda>j. dict_get j ''job_hash'') (load_posted_jobs st)))"
  by (auto simp: delivered_hashes_def)

lemma get_jobs_for_posting_unfold:
  "get_jobs_for_posting limit st =
     (case sort_newest_first (undelivered st) of
        Inl e \<Rightarrow> Inl e
      | Inr sorted_jobs \<Rightarrow> Inr (apply_limit limit sorted_jobs))"
  by (simp add: get_jobs_for_posting_def undelivered_def delivered_hashes_code Let_def)

lemma sort_newest_first_ok:
  assumes "list_all (\<lambda>j. scraped_at_key j \<noteq> PNone) js"
  shows "sort_newest_first js = Inr (rev (sort_key key_text (rev js)))"
  using assms by (auto simp: sort_newest_first_def list_all_iff list_ex_iff)

lemma newest_first_sorted:
  "sorted (rev (map key_text (rev (sort_key key_text (rev js)))))"
  by (simp add: rev_map [symmetric])

lemma newest_first_mset:
  "mset (rev (sort_key key_text (rev js))) = mset js"
  by simp

lemma descending_take_drop:
  assumes "sorted (rev (map f xs))" and "x \<in> set (take n xs)" and "y \<in> set (drop n xs)"
  shows "f y \<le> f x"
proof -
  have "rev (map f xs) = rev (map f (drop n xs)) @ rev (map f (take n xs))"
    by (metis append_take_drop_id map_append rev_append)
  with assms(1) have "\<forall>a \<in> set (rev (map f (drop n xs))). \<forall>b \<in> set (rev (map f (take n xs))). a \<le> b"
    by (simp add: sorted_append)
  with assms(2,3) show ?thesis by auto
qed

text \<open>
  C10. When no known job has \<^verbatim>\<open>None\<close> as its \<^verbatim>\<open>scraped_at\<close> (the jobs that
  \<^verbatim>\<open>process_jobs\<close> stores have a text there), \<^verbatim>\<open>get_jobs_for_posting\<close> without
  a limit, or with the limit 0, returns the undelivered jobs, each once, in descending
  order of \<^verbatim>\<open>scraped_at\<close>; with a positive limit \<open>n\<close> it returns the first \<open>n\<close>
  of that list: at most \<open>n\<close> jobs, none of them older than a job left out.
\<close>

theorem backlog_newest_first:
  assumes "list_all (\<lambda>j. scraped_at_key j \<noteq> PNone) (load_existing_jobs st)"
  shows "\<exists>newest_first.
           get_jobs_for_posting None st = Inr newest_first \<and>
           get_jobs_for_posting (Some 0) st = Inr newest_first \<and>
           mset newest_first = mset (undelivered st) \<and>
           sorted (rev (map key_text newest_first)) \<and>
           (\<forall>n. 0 < n \<longrightarrow>
              get_jobs_for_posting (Some n) st = Inr (take (nat n) newest_first) \<and>
              int (length (take (nat n) newest_first)) \<le> n \<and>
              (\<forall>x \<in> set (take (nat n) newest_first). \<forall>y \<in> set (drop (nat n) newest_first).
                 key_text y \<le> key_text x))"
proof -
  let ?nf = "rev (sort_key key_text (rev (undelivered st)))"
  from assms have "list_all (\<lambda>j. scraped_at_key j \<noteq> PNone) (undelivered st)"
    by (auto simp: undelivered_def list_all_iff)
  then have s: "sort_newest_first (undelivered st) = Inr ?nf"
    by (rule sort_newest_first_ok)
  have sorted_nf: "sorted (rev (map key_text ?nf))"
    by (rule newest_first_sorted)
  have "get_jobs_for_posting None st = Inr ?nf"
    by (simp add: get_jobs_for_posting_unfold s apply_limit_def)
  moreover have "get_jobs_for_posting (Some 0) st = Inr ?nf"
    by (simp add: get_jobs_for_posting_unfold s apply_limit_def)
  moreover have "mset ?nf = mset (undelivered st)"
    by (rule newest_first_mset)
  moreover have "get_jobs_for_posting (Some n) st = Inr (take (nat n) ?nf)" if "0 < n" for n
    using that by (simp add: get_jobs_for_posting_unfold s apply_limit_def)
  moreover have "int (length (take (nat n) ?nf)) \<le> n" if "0 < n" for n
    using that by simp
  moreover have "key_text y \<le> key_text x"
    if "x \<in> set (take (nat n) ?nf)" "y \<in> set (drop (nat n) ?nf)" for n x y
    using descending_take_drop [OF sorted_nf that] .
  ultimately show ?thesis
    using sorted_nf by blast
qed

theorem backlog_newest_first_witness:
  "list_all (\<lambda>j. scraped_at_key j \<noteq> PNone) (load_existing_jobs backlog_store) \<and>
   (\<exists>newest_first.
      get_jobs_for_posting None backlog_store = Inr newest_first \<and>
      get_jobs_for_posting (Some 1) backlog_store = Inr (take 1 newest_first) \<and>
      mset newest_first = mset (undelivered backlog_store) \<and>
      sorted (rev (map key_text newest_first))) \<and>
   (case get_jobs_for_posting (Some 1) backlog_store of
      Inl e \<Rightarrow> []
    | Inr js \<Rightarrow> map (\<lambda>j. dict_get j ''job_hash'') js) = [PStr ''c3'']"
proof -
  have ok: "list_all (\<lambda>j. scraped_at_key j \<noteq> PNone) (load_existing_jobs backlog_store)"
    by (simp add: backlog_store_def load_existing_jobs_def load_file_def path_exists_def
          read_json_def job_a_def job_b_def job_c_def scraped_at_key_def dict_get_default_def)
  from backlog_newest_first [OF ok] obtain nf where
    "get_jobs_for_posting None backlog_store = Inr nf"
    "mset nf = mset (undelivered backlog_store)"
    "sorted (rev (map key_text nf))"
    "\<forall>n. 0 < n \<longrightarrow> get_jobs_for_posting (Some n) backlog_store = Inr (take (nat n) nf)"
    by blast
  then have "get_jobs_for_posting None backlog_store = Inr nf \<and>
      get_jobs_for_posting (Some 1) backlog_store = Inr (take 1 nf) \<and>
      mset nf = mset (undelivered backlog_store) \<and>
      sorted (rev (map key_text nf))"
    by simp
  moreover have "(case get_jobs_for_posting (Some 1) backlog_store of
      Inl e \<Rightarrow> []
    | Inr js \<Rightarrow> map (\<lambda>j. dict_get j ''job_hash'') js) = [PStr ''c3'']"
    by (simp add: get_jobs_for_posting_def backlog_store_def load_existing_jobs_def
          load_posted_jobs_def load_file_def path_exists_def read_json_def job_a_def job_b_def
          job_c_def dict_get_def truthy_def sort_newest_first_def scraped_at_key_def
          dict_get_default_def key_text_def apply_limit_def Let_def)
  ultimately show ?thesis
    using ok by blast
qed

section \<open>C2: one channel's success marks the batch delivered\<close>

lemma newer_than_readable:
  assumes "posted_at_readable D j" and "fromisoformat D (isoformat D now) = Naive now"
  shows "\<exists>b. newer_than D cutoff (dict_get_default j ''posted_at'' (PStr (isoformat D now))) = Inr b"
  using assms
  by (auto simp: posted_at_readable_def newer_than_def dict_get_default_def
           split: option.splits pyval.splits parsed.splits)

lemma keep_recent_posted_ok:
  assumes "fromisoformat D (isoformat D now) = Naive now"
  shows "list_all (posted_at_readable D) js \<Longrightarrow>
    keep_recent_posted D now cutoff js =
      Inr (filter (\<lambda>j. newer_than D cutoff
                           (dict_get_default j ''posted_at'' (PStr (isoformat D now))) = Inr True) js)"
proof (induction js)
  case Nil
  show ?case by simp
next
  case (Cons j js)
  from Cons.prems have "posted_at_readable D j" and rest: "list_all (posted_at_readable D) js"
    by simp_all
  from newer_than_readable [OF this(1) assms, of cutoff] obtain b where
    "newer_than D cutoff (dict_get_default j ''posted_at'' (PStr (isoformat D now))) = Inr b"
    by blast
  with Cons.IH [OF rest] show ?case by simp
qed

lemma stamped_readable:
  "fromisoformat D (isoformat D now) = Naive now \<Longrightarrow>
   posted_at_readable D (j(''posted_at'' \<mapsto> PStr (isoformat D now)))"
  by (simp add: posted_at_readable_def)

lemma stamped_is_recent:
  "fromisoformat D (isoformat D now) = Naive now \<Longrightarrow>
   newer_than D (now - timedelta_days 30)
     (dict_get_default (j(''posted_at'' \<mapsto> PStr (isoformat D now))) ''posted_at'' d) = Inr True"
  by (simp add: newer_than_def dict_get_default_def timedelta_days_def)

lemma load_after_save_posted:
  "writable st \<Longrightarrow> load_posted_jobs (save_posted_jobs st js) = js"
  "load_existing_jobs (save_posted_jobs st js) = load_existing_jobs st"
  by (simp_all add: save_posted_jobs_def load_existing_jobs_def load_posted_jobs_def load_file_def
        path_exists_def read_json_def)

lemma mark_jobs_as_posted_ok:
  assumes "jobs \<noteq> []" and "fromisoformat D (isoformat D now) = Naive now"
    and "list_all (posted_at_readable D) (load_posted_jobs st)"
  shows "\<exists>kept. mark_jobs_as_posted D now jobs st = Inr (save_posted_jobs st kept) \<and>
           set (map (\<lambda>j. j(''posted_at'' \<mapsto> PStr (isoformat D now))) jobs) \<subseteq> set kept \<and>
           set kept \<subseteq> set (load_posted_jobs st)
                        \<union> set (map (\<lambda>j. j(''posted_at'' \<mapsto> PStr (isoformat D now))) jobs)"
proof -
  let ?stamped = "map (\<lambda>j. j(''posted_at'' \<mapsto> PStr (isoformat D now))) jobs"
  let ?all = "load_posted_jobs st @ ?stamped"
  let ?recent = "\<lambda>j. newer_than D (now - timedelta_days 30)
                        (dict_get_default j ''posted_at'' (PStr (isoformat D now))) = Inr True"
  have "list_all (posted_at_readable D) ?stamped"
    using assms(2) by (simp add: list_all_iff stamped_readable)
  with assms(3) have "list_all (posted_at_readable D) ?all" by simp
  from keep_recent_posted_ok [OF assms(2) this]
  have k: "keep_recent_posted D now (now - timedelta_days 30) ?all = Inr (filter ?recent ?all)" .
  have "set ?stamped \<subseteq> set (filter ?recent ?all)"
    using assms(2) by (auto simp: stamped_is_recent)
  moreover have "set (filter ?recent ?all) \<subseteq> set (load_posted_jobs st) \<union> set ?stamped"
    by auto
  moreover have "mark_jobs_as_posted D now jobs st = Inr (save_posted_jobs st (filter ?recent ?all))"
    using assms(1) k by (simp add: mark_jobs_as_posted_def Let_def)
  ultimately show ?thesis by blast
qed

lemma selected_are_undelivered:
  assumes "get_jobs_for_posting limit st = Inr selected"
  shows "set selected \<subseteq> set (undelivered st)"
proof -
  from assms obtain sorted_jobs where
    s: "sort_newest_first (undelivered st) = Inr sorted_jobs" and
    sel: "selected = apply_limit limit sorted_jobs"
    by (auto simp: get_jobs_for_posting_unfold split: sum.splits)
  from s have "set sorted_jobs = set (undelivered st)"
    by (auto simp: sort_newest_first_def split: if_splits)
  moreover have "set (apply_limit limit sorted_jobs) \<subseteq> set sorted_jobs"
    by (auto simp: apply_limit_def split: option.splits dest: in_set_takeD)
  ultimately show ?thesis using sel by simp
qed

text \<open>
  C2. A non-empty batch is given to \<^verbatim>\<open>post_jobs\<close>; the store can be written, the
  clock reads back the time it prints, the delivered records already stored have a
  readable \<^verbatim>\<open>posted_at\<close> and every job of the batch has its \<^verbatim>\<open>job_hash\<close>. If
  Telegram or Blogger reports success, every job of the batch is in the delivered-set
  afterwards, stamped with \<^verbatim>\<open>posted_at\<close>, and whatever the limit, the next
  \<^verbatim>\<open>get_jobs_for_posting\<close> selects no job with the \<^verbatim>\<open>job_hash\<close> of a job of the
  batch. If both report failure, the store is unchanged.
\<close>

theorem one_success_marks_batch_delivered:
  assumes "jobs \<noteq> []"
    and "writable (storage s)"
    and "fromisoformat D (isoformat D now) = Naive now"
    and "list_all (posted_at_readable D) (load_posted_jobs (storage s))"
    and "list_all (\<lambda>j. truthy (dict_get j ''job_hash'')) jobs"
  shows "(success_telegram \<or> success_blogger \<longrightarrow>
           (\<forall>j \<in> set jobs.
              j(''posted_at'' \<mapsto> PStr (isoformat D now))
                \<in> set (load_posted_jobs
                         (storage (post_jobs success_telegram success_blogger D now jobs s)))) \<and>
           (\<forall>limit selected.
              get_jobs_for_posting limit
                (storage (post_jobs success_telegram success_blogger D now jobs s)) = Inr selected \<longrightarrow>
              (\<forall>k \<in> set selected. \<forall>j \<in> set jobs.
                 dict_get k ''job_hash'' \<noteq> dict_get j ''job_hash''))) \<and>
         (\<not> success_telegram \<and> \<not> success_blogger \<longrightarrow>
           storage (post_jobs success_telegram success_blogger D now jobs s) = storage s)"
proof (intro conjI impI)
  assume ok: "success_telegram \<or> success_blogger"
  let ?s' = "post_jobs success_telegram success_blogger D now jobs s"
  let ?stamp = "\<lambda>j. j(''posted_at'' \<mapsto> PStr (isoformat D now))"
  from mark_jobs_as_posted_ok [OF assms(1,3,4)] obtain kept where
    m: "mark_jobs_as_posted D now jobs (storage s) = Inr (save_posted_jobs (storage s) kept)" and
    sub: "set (map ?stamp jobs) \<subseteq> set kept"
    by blast
  from ok m assms(1) have st': "storage ?s' = save_posted_jobs (storage s) kept"
    by (auto simp: post_jobs_def Let_def)
  with assms(2) have posted': "load_posted_jobs (storage ?s') = kept"
    by (simp add: load_after_save_posted)
  show marked: "\<forall>j \<in> set jobs. ?stamp j \<in> set (load_posted_jobs (storage ?s'))"
    using sub by (auto simp: posted')
  show "\<forall>limit selected.
          get_jobs_for_posting limit (storage ?s') = Inr selected \<longrightarrow>
          (\<forall>k \<in> set selected. \<forall>j \<in> set jobs. dict_get k ''job_hash'' \<noteq> dict_get j ''job_hash'')"
  proof (intro allI impI ballI)
    fix limit selected k j
    assume sel: "get_jobs_for_posting limit (storage ?s') = Inr selected"
      and k: "k \<in> set selected" and j: "j \<in> set jobs"
    from selected_are_undelivered [OF sel] k
    have "dict_get k ''job_hash'' \<notin> delivered_hashes (storage ?s')"
      by (auto simp: undelivered_def)
    from j assms(5) have "truthy (dict_get j ''job_hash'')"
      by (simp add: list_all_iff)
    moreover from marked j have "?stamp j \<in> set (load_posted_jobs (storage ?s'))"
      by blast
    moreover have "dict_get (?stamp j) ''job_hash'' = dict_get j ''job_hash''"
      by (simp add: dict_get_def)
    ultimately have "dict_get j ''job_hash'' \<in> delivered_hashes (storage ?s')"
      unfolding delivered_hashes_def by blast
    with \<open>dict_get k ''job_hash'' \<notin> delivered_hashes (storage ?s')\<close>
    show "dict_get k ''job_hash'' \<noteq> dict_get j ''job_hash''"
      by auto
  qed
next
  assume "\<not> success_telegram \<and> \<not> success_blogger"
  then show "storage (post_jobs success_telegram success_blogger D now jobs s) = storage s"
    by (simp add: post_jobs_def Let_def)
qed

theorem one_success_marks_batch_delivered_witness:
  "[job_c] \<noteq> [] \<and>
   writable (storage example_scheduler) \<and>
   fromisoformat example_clock (isoformat example_clock 950400000000) = Naive 950400000000 \<and>
   list_all (posted_at_readable example_clock) (load_posted_jobs (storage example_scheduler)) \<and>
   list_all (\<lambda>j. truthy (dict_get j ''job_hash'')) [job_c] \<and>
   job_c(''posted_at'' \<mapsto> PStr (isoformat example_clock 950400000000))
     \<in> set (load_posted_jobs
              (storage (post_jobs False True example_clock 950400000000 [job_c] example_scheduler))) \<and>
   storage (post_jobs False False example_clock 950400000000 [job_c] example_scheduler)
     = storage example_scheduler"
proof -
  have h1: "[job_c] \<noteq> []" by simp
  have h2: "writable (storage example_scheduler)"
    by (simp add: example_scheduler_def backlog_store_def)
  have h3: "fromisoformat example_clock (isoformat example_clock 950400000000) = Naive 950400000000"
    by (simp add: example_clock_def example_times_def)
  have h4: "list_all (posted_at_readable example_clock) (load_posted_jobs (storage example_scheduler))"
    by (simp add: example_scheduler_def backlog_store_def load_posted_jobs_def load_file_def
          path_exists_def read_json_def posted_at_readable_def example_clock_def example_times_def)
  have h5: "list_all (\<lambda>j. truthy (dict_get j ''job_hash'')) [job_c]"
    by (simp add: job_c_def dict_get_def truthy_def)
  note inst1 = one_success_marks_batch_delivered
                 [OF h1 h2 h3 h4 h5, of False True]
  note inst2 = one_success_marks_batch_delivered
                 [OF h1 h2 h3 h4 h5, of False False]
  from inst1 have "job_c(''posted_at'' \<mapsto> PStr (isoformat example_clock 950400000000))
     \<in> set (load_posted_jobs
              (storage (post_jobs False True example_clock 950400000000 [job_c] example_scheduler)))"
    by simp
  moreover from inst2 have
    "storage (post_jobs False False example_clock 950400000000 [job_c] example_scheduler)
       = storage example_scheduler"
    by simp
  ultimately show ?thesis
    using h1 h2 h3 h4 h5 by blast
qed

section \<open>C3: what the fingerprint depends on\<close>

lemma md5_portal_wide:
  "md5_hexdigest (utf8_encode ''clerkdelhijob  portal'') = ''91e38004b1a1c7e5db3f5dd2ef65ed8b''"
  by (simp add: md5_eval)

lemma md5_portal_narrow:
  "md5_hexdigest (utf8_encode ''clerkdelhijob portal'') = ''94b53a9f5eccc80ae8968c33a2246cda''"
  by (simp add: md5_eval)

lemma portal_wide_content: "hash_content portal_wide = ''clerkdelhijob  portal''"
proof -
  have "str_strip (str_lower ''ClerkDelhiJob  Portal'') = ''clerkdelhijob  portal''"
    by code_simp
  then show ?thesis
    by (simp add: hash_content_def portal_wide_def dict_get_default_def format_val_def)
qed

lemma portal_narrow_content: "hash_content portal_narrow = ''clerkdelhijob portal''"
proof -
  have "str_strip (str_lower ''ClerkDelhiJob Portal'') = ''clerkdelhijob portal''"
    by code_simp
  then show ?thesis
    by (simp add: hash_content_def portal_narrow_def dict_get_default_def format_val_def)
qed

lemma portal_same_normal: "spec_normalized portal_wide = spec_normalized portal_narrow"
proof -
  have "clean_text ''Job  Portal'' = ''Job Portal''" "clean_text ''Job Portal'' = ''Job Portal''"
    by code_simp+
  then show ?thesis
    by (simp add: spec_normalized_def field_text_def portal_wide_def portal_narrow_def
          dict_get_default_def format_val_def)
qed

lemma portal_accepted:
  "\<exists>p. clean_and_validate_job D now portal_wide = Inr (Some p) \<and>
        generate_job_hash p = generate_job_hash portal_wide"
  "\<exists>p. clean_and_validate_job D now portal_narrow = Inr (Some p) \<and>
        generate_job_hash p = generate_job_hash portal_narrow"
proof -
  have ct: "clean_text ''Clerk'' = ''Clerk''" "clean_text ''Delhi'' = ''Delhi''"
    by code_simp+
  have "\<exists>p. clean_and_validate_job D now portal_wide = Inr (Some p)"
    by (rule cav_accepts) (simp_all add: portal_wide_def dict_get_def truthy_def)
  then obtain p where p: "clean_and_validate_job D now portal_wide = Inr (Some p)" by blast
  have "generate_job_hash p = generate_job_hash portal_wide"
    by (rule generate_job_hash_cong)
       (simp_all add: cav_cleaned_title [OF p] cav_cleaned_location [OF p] cav_source [OF p]
          cleaned_title_def cleaned_location_def dict_get_def portal_wide_def ct)
  with p show "\<exists>p. clean_and_validate_job D now portal_wide = Inr (Some p) \<and>
        generate_job_hash p = generate_job_hash portal_wide" by blast
  have "\<exists>q. clean_and_validate_job D now portal_narrow = Inr (Some q)"
    by (rule cav_accepts) (simp_all add: portal_narrow_def dict_get_def truthy_def)
  then obtain q where q: "clean_and_validate_job D now portal_narrow = Inr (Some q)" by blast
  have "generate_job_hash q = generate_job_hash portal_narrow"
    by (rule generate_job_hash_cong)
       (simp_all add: cav_cleaned_title [OF q] cav_cleaned_location [OF q] cav_source [OF q]
          cleaned_title_def cleaned_location_def dict_get_def portal_narrow_def ct)
  with q show "\<exists>p. clean_and_validate_job D now portal_narrow = Inr (Some p) \<and>
        generate_job_hash p = generate_job_hash portal_narrow" by blast
qed

lemma portal_hashes_differ:
  "generate_job_hash portal_wide \<noteq> generate_job_hash portal_narrow"
  by (simp add: generate_job_hash_def portal_wide_content portal_narrow_content
        md5_portal_wide md5_portal_narrow)

text \<open>
  C3, amended. The value of \<^verbatim>\<open>generate_job_hash\<close> depends only on the text that is
  hashed: title, location and source put together, lower-cased as a whole and stripped
  at its two ends. Two records for which this text is the same have the same
  fingerprint, whatever their other fields. The function does not collapse whitespace
  inside the text, and it folds the case of the whole text, not of each field. For
  records that passed \<^verbatim>\<open>clean_and_validate_job\<close>, title and location were
  whitespace-collapsed and cut to length before: two valid raw records come out with the
  same fingerprint when the cleaned and cut title, the cleaned and cut location and the
  source, put together, are the same text after lower-casing and stripping.
\<close>

theorem fingerprint_of_lowered_text:
  "(str_strip (str_lower (triple_text r1)) = str_strip (str_lower (triple_text r2)) \<longrightarrow>
    generate_job_hash r1 = generate_job_hash r2) \<and>
   (clean_and_validate_job D1 now1 r1 = Inr (Some p1) \<and>
    clean_and_validate_job D2 now2 r2 = Inr (Some p2) \<and>
    str_strip (str_lower (validated_triple_text r1)) =
      str_strip (str_lower (validated_triple_text r2)) \<longrightarrow>
    generate_job_hash p1 = generate_job_hash p2)"
proof (intro conjI impI)
  assume "str_strip (str_lower (triple_text r1)) = str_strip (str_lower (triple_text r2))"
  then show "generate_job_hash r1 = generate_job_hash r2"
    by (simp add: generate_job_hash_def hash_content_triple_text)
next
  assume a: "clean_and_validate_job D1 now1 r1 = Inr (Some p1) \<and>
    clean_and_validate_job D2 now2 r2 = Inr (Some p2) \<and>
    str_strip (str_lower (validated_triple_text r1)) =
      str_strip (str_lower (validated_triple_text r2))"
  then have "triple_text p1 = validated_triple_text r1" "triple_text p2 = validated_triple_text r2"
    using validated_triple [of D1 now1 r1 p1] validated_triple [of D2 now2 r2 p2] by blast+
  with a show "generate_job_hash p1 = generate_job_hash p2"
    by (simp add: generate_job_hash_def hash_content_triple_text)
qed

theorem fingerprint_of_lowered_text_witness:
  "str_strip (str_lower (triple_text clerk_upper)) = str_strip (str_lower (triple_text clerk_lower)) \<and>
   generate_job_hash clerk_upper = generate_job_hash clerk_lower \<and>
   str_strip (str_lower (validated_triple_text typist_spaced)) =
     str_strip (str_lower (validated_triple_text typist_plain)) \<and>
   (\<exists>p1 p2. clean_and_validate_job example_clock 0 typist_spaced = Inr (Some p1) \<and>
      clean_and_validate_job example_clock 864000000000 typist_plain = Inr (Some p2) \<and>
      generate_job_hash p1 = generate_job_hash p2)"
proof -
  have lw: "str_strip (str_lower ''ClerkDelhiX'') = str_strip (str_lower ''clerkdelhiX'')"
    by code_simp
  have a: "str_strip (str_lower (triple_text clerk_upper)) = str_strip (str_lower (triple_text clerk_lower))"
    using lw
    by (simp add: triple_text_def field_text_def dict_get_default_def format_val_def clerk_upper_def
          clerk_lower_def)
  have ct: "clean_text ''  Clerk   Typist '' = ''Clerk Typist''" "clean_text ''clerk typist'' = ''clerk typist''"
    "clean_text ''india'' = ''india''"
    "str_strip (str_lower ''Clerk TypistIndiaX'') = str_strip (str_lower ''clerk typistindiax'')"
    by code_simp+
  have b: "str_strip (str_lower (validated_triple_text typist_spaced)) =
     str_strip (str_lower (validated_triple_text typist_plain))"
    using ct(4)
    by (simp add: validated_triple_text_def cleaned_title_def cleaned_location_def field_text_def
          dict_get_def dict_get_default_def format_val_def typist_spaced_def typist_plain_def
          ct(1,2,3))
  obtain p1 where p1: "clean_and_validate_job example_clock 0 typist_spaced = Inr (Some p1)"
    using cav_accepts [of typist_spaced example_clock 0]
    by (auto simp: typist_spaced_def dict_get_def truthy_def)
  obtain p2 where p2: "clean_and_validate_job example_clock 864000000000 typist_plain = Inr (Some p2)"
    using cav_accepts [of typist_plain example_clock 864000000000]
    by (auto simp: typist_plain_def dict_get_def truthy_def)
  note inst1 = fingerprint_of_lowered_text
                 [of clerk_upper clerk_lower example_clock 0 p1 example_clock 0 p1]
  note inst2 = fingerprint_of_lowered_text
                 [of typist_spaced typist_plain example_clock 0 p1 example_clock 864000000000 p2]
  from inst1 a have c: "generate_job_hash clerk_upper = generate_job_hash clerk_lower"
    by blast
  from inst2 b p1 p2 have d: "generate_job_hash p1 = generate_job_hash p2"
    by blast
  from a b c d p1 p2 show ?thesis
    by blast
qed

text \<open>
  C3 as stated fails: the two records below have the same triple after whitespace
  collapsing and case-folding, and two different fingerprints; \<^verbatim>\<open>process_jobs\<close>
  accepts both of them from one batch.
\<close>

theorem fingerprint_keeps_inner_whitespace_counterexample:
  "spec_normalized portal_wide = spec_normalized portal_narrow \<and>
   generate_job_hash portal_wide \<noteq> generate_job_hash portal_narrow \<and>
   length (fst (process_jobs example_clock 0 [portal_wide, portal_narrow] empty_store)) = 2"
proof -
  from portal_accepted(1) [of example_clock 0] obtain p where
    p: "clean_and_validate_job example_clock 0 portal_wide = Inr (Some p)"
       "generate_job_hash p = generate_job_hash portal_wide" by blast
  from portal_accepted(2) [of example_clock 0] obtain q where
    q: "clean_and_validate_job example_clock 0 portal_narrow = Inr (Some q)"
       "generate_job_hash q = generate_job_hash portal_narrow" by blast
  from p q portal_hashes_differ
  have "length (process_loop example_clock 0 {} {} [portal_wide, portal_narrow]) = 2"
    by (simp add: Let_def)
  then have "length (fst (process_jobs example_clock 0 [portal_wide, portal_narrow] empty_store)) = 2"
    by (simp add: process_jobs_def Let_def empty_store_loads del: process_loop.simps)
  with portal_same_normal portal_hashes_differ show ?thesis
    by blast
qed

section \<open>C5: the retention sweep of the known-set\<close>


lemma cav_dated:
  assumes "clean_and_validate_job D now r = Inr (Some p)" and "isoformat D now \<noteq> []"
  shows "dated p"
proof -
  let ?job1 = "\<lambda>k. if k \<in> set text_fields then clean_field k r k else r k"
  let ?job2 = "fold fill_default (defaults D now) (fold clean_field text_fields r)"
  from assms(1) obtain job3 job4 where
    v: "validate_category ?job2 = Inr job3" and
    l: "limit_fields field_limits job3 = Inr job4" and
    p: "p = job4(''processed_at'' \<mapsto> PStr (isoformat D now))"
    by (rule cav_steps)
  from validate_category_other [OF v] have j3: "job3 ''scraped_at'' = ?job2 ''scraped_at''" by simp
  have j2: "?job2 ''scraped_at'' =
              (if truthy (dict_get ?job1 ''scraped_at'') then r ''scraped_at''
               else Some (PStr (isoformat D now)))"
    by (subst job2_defaulted [where d = "PStr (isoformat D now)"])
       (simp_all add: defaults_def text_fields_def)
  have j1: "dict_get ?job1 ''scraped_at'' = dict_get r ''scraped_at''"
    by (simp add: dict_get_def text_fields_def)
  from limit_fields_other [OF l, of "''scraped_at''"] have "job4 ''scraped_at'' = job3 ''scraped_at''"
    by (simp add: field_limits_def)
  with j3 j2 j1 p have "dict_get p ''scraped_at'' =
     (if truthy (dict_get r ''scraped_at'') then dict_get r ''scraped_at'' else PStr (isoformat D now))"
    by (simp add: dict_get_def)
  with assms(2) show ?thesis
    by (simp add: dated_def truthy_def)
qed

lemma process_loop_dated:
  "isoformat D now \<noteq> [] \<Longrightarrow> list_all dated (process_loop D now K P batch)"
proof (induction batch arbitrary: K)
  case Nil
  show ?case by simp
next
  case (Cons r rs)
  show ?case
  proof (cases "clean_and_validate_job D now r")
    case (Inl e)
    with Cons show ?thesis by simp
  next
    case (Inr res)
    show ?thesis
    proof (cases res)
      case None
      with Inr Cons show ?thesis by simp
    next
      case (Some p)
      with Inr cav_dated [of D now r p] Cons.prems have "dated p" by simp
      then have "dated (p(''job_hash'' \<mapsto> PStr (generate_job_hash p)))"
        by (simp add: dated_def dict_get_def)
      with Inr Some Cons show ?thesis by (simp add: Let_def)
    qed
  qed
qed

text \<open>
  The known-set file is written by \<^verbatim>\<open>process_jobs\<close> and by the sweep itself, and by
  nothing else that is called. Both keep it a list of records with a non-empty
  \<^verbatim>\<open>scraped_at\<close>, so the sweep never meets a record without one.
\<close>

lemma process_jobs_keeps_dated:
  assumes "list_all dated (load_existing_jobs st)" and "isoformat D now \<noteq> []"
  shows "list_all dated (load_existing_jobs (snd (process_jobs D now batch st)))"
proof (cases "writable st")
  case False
  with assms(1) show ?thesis by (simp add: process_jobs_not_writable)
next
  case True
  with assms process_loop_dated [OF assms(2)] show ?thesis
    by (simp add: process_jobs_def Let_def load_after_save_jobs del: process_loop.simps)
qed

lemma recent_jobs_subset:
  "recent_jobs D cutoff js = Inr r \<Longrightarrow> set r \<subseteq> set js"
proof (induction js arbitrary: r)
  case Nil
  then show ?case by simp
next
  case (Cons j js)
  then show ?case
    by (auto split: pyval.splits if_splits parsed.splits sum.splits)
qed

lemma cleanup_keeps_dated:
  assumes "cleanup_old_data D now days st = Inr st'" and "list_all dated (load_existing_jobs st)"
  shows "list_all dated (load_existing_jobs st')"
proof -
  from assms(1) obtain r where r: "recent_jobs D (now - timedelta_days days) (load_existing_jobs st) = Inr r"
    and st': "st' = (if length r < length (load_existing_jobs st) then save_jobs st r else st)"
    by (auto simp: cleanup_old_data_def Let_def split: sum.splits)
  from recent_jobs_subset [OF r] assms(2) have "list_all dated r"
    by (auto simp: list_all_iff)
  show ?thesis
  proof (cases "writable st")
    case True
    with \<open>list_all dated r\<close> assms(2) show ?thesis
      by (simp add: st' load_after_save_jobs)
  next
    case False
    with assms(2) show ?thesis
      by (simp add: st' save_jobs_def)
  qed
qed





section \<open>C1: the delayed posting task\<close>

lemma md5_hexdigest_length: "length (md5_hexdigest bs) = 32"
  by (cases "md5_blocks md5_init (md5_pad bs)")
     (simp add: md5_hexdigest_def hex_byte_def word_bytes_def)

lemma generate_job_hash_nonempty: "generate_job_hash j \<noteq> []"
  using md5_hexdigest_length [of "utf8_encode (hash_content j)"]
  by (auto simp: generate_job_hash_def)

lemma writable_after_save:
  "writable (save_jobs st js) = writable st"
  "writable (save_posted_jobs st js) = writable st"
  by (simp_all add: save_jobs_def save_posted_jobs_def)

lemma mark_single:
  assumes "fromisoformat D (isoformat D now) = Naive now" and "load_posted_jobs st = []"
  shows "mark_jobs_as_posted D now [p] st =
           Inr (save_posted_jobs st [p(''posted_at'' \<mapsto> PStr (isoformat D now))])"
  using assms
  by (simp add: mark_jobs_as_posted_def Let_def stamped_is_recent)

lemma published_post_jobs:
  "published (post_jobs success_telegram success_blogger D now jobs s) =
     published s @
       (if jobs = [] then []
        else (if success_telegram then [(Telegram, jobs)] else [])
             @ (if success_blogger then [(Blogger, jobs)] else []))"
  by (simp add: post_jobs_def Let_def split: sum.splits)

lemma after_scrape_eq:
  "\<exists>p. truthy (dict_get p ''job_hash'') \<and>
       after_scrape =
         \<lparr>storage = save_jobs empty_store [p], delayed_posting = [[p]], published = []\<rparr>"
proof -
  from clerk_upper_accepted obtain p0 where
    p0: "clean_and_validate_job example_clock 0 clerk_upper = Inr (Some p0)" by blast
  let ?p = "p0(''job_hash'' \<mapsto> PStr (generate_job_hash p0))"
  have loop: "process_loop example_clock 0 {} {} [clerk_upper] = [?p]"
    by (rule process_loop_single [OF p0]) simp_all
  have "process_jobs example_clock 0 [clerk_upper] empty_store =
          ([?p], save_jobs empty_store [?p])"
    by (simp add: process_jobs_def empty_store_loads Let_def loop del: process_loop.simps)
  then have "after_scrape =
         \<lparr>storage = save_jobs empty_store [?p], delayed_posting = [[?p]], published = []\<rparr>"
    by (simp add: after_scrape_def run_scraping_job_def idle_scheduler_def)
  moreover have "truthy (dict_get ?p ''job_hash'')"
    by (simp add: dict_get_def truthy_def generate_job_hash_nonempty)
  ultimately show ?thesis by blast
qed

text \<open>
  C1 fails on the code. After the scraping cycle the record \<open>p\<close> is known and the
  delayed task holds the batch \<open>[p]\<close>. The periodic posting job publishes \<open>p\<close> on
  Telegram and marks it delivered. The delayed task then publishes its captured batch
  without looking at the delivered-set: \<open>p\<close> is published a second time.
\<close>

theorem delayed_task_republishes:
  "\<exists>p. delayed_posting after_backlog_pass = [[p]] \<and>
       published after_backlog_pass = [(Telegram, [p])] \<and>
       dict_get p ''job_hash'' \<in> delivered_hashes (storage after_backlog_pass) \<and>
       published after_delayed_task = [(Telegram, [p]), (Telegram, [p])]"
proof -
  from after_scrape_eq obtain p where
    t: "truthy (dict_get p ''job_hash'')" and
    s1: "after_scrape =
           \<lparr>storage = save_jobs empty_store [p], delayed_posting = [[p]], published = []\<rparr>"
    by blast
  let ?st1 = "save_jobs empty_store [p]"
  let ?stamped = "p(''posted_at'' \<mapsto> PStr (isoformat example_clock 0))"
  let ?st2 = "save_posted_jobs ?st1 [?stamped]"
  have w: "writable empty_store"
    by (simp add: empty_store_def)
  have rt: "fromisoformat example_clock (isoformat example_clock 0) = Naive 0"
    by (simp add: example_clock_def example_times_def)
  have loads1: "load_existing_jobs ?st1 = [p]" "load_posted_jobs ?st1 = []"
    using w by (simp_all add: load_after_save_jobs empty_store_loads)
  have und: "undelivered ?st1 = [p]"
    by (simp add: undelivered_def delivered_hashes_def loads1)
  have srt: "sort_newest_first [p] = Inr [p]"
    by (simp add: sort_newest_first_def)
  have sel: "get_jobs_for_posting (Some 15) ?st1 = Inr [p]"
    by (simp add: get_jobs_for_posting_unfold und srt apply_limit_def)
  have mark: "mark_jobs_as_posted example_clock 0 [p] ?st1 = Inr ?st2"
    by (rule mark_single [OF rt loads1(2)])
  have s2: "after_backlog_pass =
              \<lparr>storage = ?st2, delayed_posting = [[p]], published = [(Telegram, [p])]\<rparr>"
    by (simp add: after_backlog_pass_def run_posting_job_def s1 sel post_jobs_def mark Let_def)
  have loads2: "load_posted_jobs ?st2 = [?stamped]"
    using w by (simp add: load_after_save_posted writable_after_save)
  have "dict_get ?stamped ''job_hash'' = dict_get p ''job_hash''"
    by (simp add: dict_get_def)
  with t have d: "dict_get p ''job_hash'' \<in> delivered_hashes ?st2"
    by (simp add: delivered_hashes_def loads2)
  have s3: "published after_delayed_task = [(Telegram, [p]), (Telegram, [p])]"
    by (simp add: after_delayed_task_def s2 run_posting_job_for_jobs_def published_post_jobs)
  have "delayed_posting after_backlog_pass = [[p]]"
    "published after_backlog_pass = [(Telegram, [p])]"
    "storage after_backlog_pass = ?st2"
    by (simp_all add: s2)
  with d s3 show ?thesis
    by metis
qed

end
